theory Spec2Isabelle
  imports Main "HOL-Library.AList" "HOL-Library.Sublist" "HOL-Library.Multiset"
begin

section \<open>Values, objects and the store\<close>

text \<open>
  The rule engine of \<^verbatim>\<open>packages/backend/rule-engine/src/rule-engine.ts\<close> works on
  JSON-like JavaScript values. Objects and arrays are mutable and shared by reference
  (\<^verbatim>\<open>{ ...context.data, ...requestData }\<close> copies one level only, \<^verbatim>\<open>current.push\<close>
  writes through a reference), so composite values live in a store and a value of the
  embedding is either a primitive or an address.

  An object has own properties and a prototype: the built-in one, as every object of a
  JSON text, of an object literal and of a spread has; another object of the store or none,
  once \<^verbatim>\<open>__proto__\<close> was assigned. A property is looked up in the object and then
  along its prototypes. The built-in prototype objects themselves and what they hold
  (\<^verbatim>\<open>constructor\<close>, \<^verbatim>\<open>toString\<close>, the value that \<^verbatim>\<open>__proto__\<close> reads on an object
  with the built-in prototype) are outside the model, and a lookup that ends there reads
  \<open>Undefined\<close>. An array keeps its built-in prototype.

  Numbers are integers here (no NaN, no fractions, no negative zero). The enumeration
  order of integer-like keys of a plain object is not modelled. Time stamps, elapsed
  times and stack traces are left out of the result records, and logging has no effect
  on the result (the string it builds from the rule set id apart, see \<open>execute\<close>).
\<close>

datatype jsval = Undefined | Null | Bool bool | Num int | Str string | Ref nat

datatype proto = Builtin | NoProto | Proto nat

datatype hobj = HObj proto "(string \<times> jsval) list" | HArr "jsval list"

type_synonym heap = "hobj list"

text \<open>
  What the code can throw: a \<^verbatim>\<open>TypeError\<close> of the runtime (reading a property of
  \<^verbatim>\<open>undefined\<close>, writing a property of a primitive in strict mode, converting to a
  string an object that has no usable \<^verbatim>\<open>toString\<close>), the \<^verbatim>\<open>SyntaxError\<close> of
  \<^verbatim>\<open>new RegExp\<close>, the \<^verbatim>\<open>RangeError\<close> of a call stack that is full, and
  \<^verbatim>\<open>new Error(message)\<close>. \<open>Unmodelled\<close> marks the places where the embedding stops
  following the code: a named property or \<^verbatim>\<open>length\<close> assigned on an array, and a
  path that steps into the built-in prototype object through \<^verbatim>\<open>__proto__\<close>.
\<close>

datatype js_error = TypeError | SyntaxError | RangeError | Error string | Unmodelled

definition deref :: "heap \<Rightarrow> nat \<Rightarrow> hobj option" where
  "deref h a = (if a < length h then Some (h ! a) else None)"

definition truthy :: "jsval \<Rightarrow> bool" where
  "truthy v = (case v of
       Undefined \<Rightarrow> False
     | Null \<Rightarrow> False
     | Bool b \<Rightarrow> b
     | Num n \<Rightarrow> n \<noteq> 0
     | Str s \<Rightarrow> s \<noteq> []
     | Ref a \<Rightarrow> True)"

definition digit_char :: "nat \<Rightarrow> char" where
  "digit_char d = char_of (48 + d)"

fun show_nat :: "nat \<Rightarrow> string" where
  "show_nat n = (if n < 10 then [digit_char n] else show_nat (n div 10) @ [digit_char (n mod 10)])"

declare show_nat.simps [simp del]

definition index_keys :: "nat \<Rightarrow> string list" where
  "index_keys n = map show_nat [0..<n]"

text \<open>The key \<open>k\<close> as an array index: the \<open>i\<close> whose decimal writing is \<open>k\<close>.\<close>

definition digit_val :: "char \<Rightarrow> nat" where
  "digit_val c = of_char c - 48"

definition is_digit :: "char \<Rightarrow> bool" where
  "is_digit c = (48 \<le> (of_char c :: nat) \<and> (of_char c :: nat) \<le> 57)"

definition parse_index :: "string \<Rightarrow> nat option" where
  "parse_index k =
     (if k \<noteq> [] \<and> list_all is_digit k \<and> (k = ''0'' \<or> hd k \<noteq> CHR ''0'')
      then Some (foldl (\<lambda>acc c. 10 * acc + digit_val c) 0 k)
      else None)"

text \<open>
  The own enumerable properties of a value, as the object spread \<^verbatim>\<open>{ ...v }\<close> reads
  them: none for \<^verbatim>\<open>undefined\<close>, \<^verbatim>\<open>null\<close>, booleans and numbers, the indexed
  characters of a string, the properties of an object, the indexed elements of an array.
\<close>

definition own_props :: "heap \<Rightarrow> jsval \<Rightarrow> (string \<times> jsval) list" where
  "own_props h v = (case v of
       Str s \<Rightarrow> zip (index_keys (length s)) (map (\<lambda>c. Str [c]) s)
     | Ref a \<Rightarrow> (case deref h a of
           Some (HObj pr ps) \<Rightarrow> ps
         | Some (HArr xs) \<Rightarrow> zip (index_keys (length xs)) xs
         | None \<Rightarrow> [])
     | _ \<Rightarrow> [])"

text \<open>\<^verbatim>\<open>{ ...a, ...b }\<close>: the properties of \<open>a\<close>, then each property of \<open>b\<close> assigned in turn.\<close>

definition spread :: "(string \<times> jsval) list \<Rightarrow> (string \<times> jsval) list \<Rightarrow> (string \<times> jsval) list" where
  "spread a b = fold (\<lambda>(k, v) acc. AList.update k v acc) b (fold (\<lambda>(k, v) acc. AList.update k v acc) a [])"

definition has_length :: "heap \<Rightarrow> jsval \<Rightarrow> nat option" where
  "has_length h v = (case v of
       Str s \<Rightarrow> Some (length s)
     | Ref a \<Rightarrow> (case deref h a of Some (HArr xs) \<Rightarrow> Some (length xs) | _ \<Rightarrow> None)
     | _ \<Rightarrow> None)"

text \<open>The own property \<open>k\<close> of a value, \<^verbatim>\<open>length\<close> of a string or an array included.\<close>

definition own_lookup :: "heap \<Rightarrow> jsval \<Rightarrow> string \<Rightarrow> jsval option" where
  "own_lookup h v k =
     (case (if k = ''length'' then has_length h v else None) of
        Some n \<Rightarrow> Some (Num (int n))
      | None \<Rightarrow> map_of (own_props h v) k)"

definition proto_of :: "heap \<Rightarrow> jsval \<Rightarrow> proto" where
  "proto_of h v = (case v of
       Ref a \<Rightarrow> (case deref h a of Some (HObj pr ps) \<Rightarrow> pr | _ \<Rightarrow> Builtin)
     | _ \<Rightarrow> Builtin)"

text \<open>
  The lookup of \<open>k\<close> from a value along its prototypes: a property found, the chain
  ending in a built-in prototype, or the chain ending with no prototype. A chain has no
  cycle (the runtime refuses to make one), so it has fewer objects than the store; the
  first argument bounds the walk by that.
\<close>

datatype lookup = Found jsval | From_builtin | Absent

fun chain_lookup :: "nat \<Rightarrow> heap \<Rightarrow> jsval \<Rightarrow> string \<Rightarrow> lookup" where
  "chain_lookup 0 h v k =
     (case own_lookup h v k of
        Some x \<Rightarrow> Found x
      | None \<Rightarrow> (case proto_of h v of Builtin \<Rightarrow> From_builtin | _ \<Rightarrow> Absent))"
| "chain_lookup (Suc n) h v k =
     (case own_lookup h v k of
        Some x \<Rightarrow> Found x
      | None \<Rightarrow> (case proto_of h v of
            Builtin \<Rightarrow> From_builtin
          | NoProto \<Rightarrow> Absent
          | Proto a \<Rightarrow> chain_lookup n h (Ref a) k))"

text \<open>
  \<^verbatim>\<open>v?.[k]\<close>: \<^verbatim>\<open>undefined\<close> on \<^verbatim>\<open>undefined\<close> and \<^verbatim>\<open>null\<close>; otherwise the property
  found in the value or along its prototypes; \<^verbatim>\<open>__proto__\<close>, when no object of the
  chain has a property of that name, reads the prototype of the value.
\<close>

definition get_prop :: "heap \<Rightarrow> jsval \<Rightarrow> string \<Rightarrow> jsval" where
  "get_prop h v k =
     (case chain_lookup (length h) h v k of
        Found x \<Rightarrow> x
      | Absent \<Rightarrow> Undefined
      | From_builtin \<Rightarrow>
          (if k = ''__proto__'' then (case proto_of h v of Proto a \<Rightarrow> Ref a | _ \<Rightarrow> Undefined)
           else Undefined))"

text \<open>
  \<^verbatim>\<open>v[k]\<close> and \<^verbatim>\<open>v.k\<close>: a \<^verbatim>\<open>TypeError\<close> on \<^verbatim>\<open>undefined\<close> and \<^verbatim>\<open>null\<close>. Where
  \<^verbatim>\<open>__proto__\<close> reads the built-in prototype object, the embedding stops.
\<close>

definition get_prop_strict :: "heap \<Rightarrow> jsval \<Rightarrow> string \<Rightarrow> js_error + jsval" where
  "get_prop_strict h v k =
     (if v = Undefined \<or> v = Null then Inl TypeError
      else if k = ''__proto__'' \<and> chain_lookup (length h) h v k = From_builtin
              \<and> proto_of h v = Builtin then Inl Unmodelled
      else Inr (get_prop h v k))"

text \<open>
  The setter behind \<^verbatim>\<open>__proto__\<close>, on the object at \<open>a\<close>: an object or \<^verbatim>\<open>null\<close>
  becomes the prototype, unless the chain of the new prototype passes through the object
  itself, which is a \<^verbatim>\<open>TypeError\<close>; any other value is ignored.
\<close>

fun proto_reaches :: "nat \<Rightarrow> heap \<Rightarrow> nat \<Rightarrow> nat \<Rightarrow> bool" where
  "proto_reaches 0 h b a = (b = a)"
| "proto_reaches (Suc n) h b a =
     (b = a \<or> (case proto_of h (Ref b) of Proto c \<Rightarrow> proto_reaches n h c a | _ \<Rightarrow> False))"

definition set_proto :: "heap \<Rightarrow> nat \<Rightarrow> proto \<Rightarrow> (string \<times> jsval) list \<Rightarrow> jsval \<Rightarrow> js_error + heap" where
  "set_proto h a pr ps x = (case x of
       Null \<Rightarrow> Inr (h[a := HObj NoProto ps])
     | Ref b \<Rightarrow>
         (if pr = Proto b then Inr h
          else if proto_reaches (length h) h b a then Inl TypeError
          else Inr (h[a := HObj (Proto b) ps]))
     | _ \<Rightarrow> Inr h)"

text \<open>
  \<^verbatim>\<open>v[k] = x\<close> in strict code (a class body is strict): a \<^verbatim>\<open>TypeError\<close> on
  \<^verbatim>\<open>undefined\<close>, \<^verbatim>\<open>null\<close> and on every primitive. On an object the own property
  is replaced in place or added at the end; but \<^verbatim>\<open>__proto__\<close>, when no object of the
  chain has a property of that name and the chain ends in the built-in prototype, goes to
  the setter there and makes no own property. On an array an index inside the array
  replaces the element and an index beyond it extends the array, the gap reading as
  \<^verbatim>\<open>undefined\<close>.
\<close>

definition set_prop :: "heap \<Rightarrow> jsval \<Rightarrow> string \<Rightarrow> jsval \<Rightarrow> js_error + heap" where
  "set_prop h v k x = (case v of
       Ref a \<Rightarrow> (case deref h a of
           Some (HObj pr ps) \<Rightarrow>
             (if k = ''__proto__'' \<and> chain_lookup (length h) h v k = From_builtin
              then set_proto h a pr ps x
              else Inr (h[a := HObj pr (AList.update k x ps)]))
         | Some (HArr xs) \<Rightarrow> (case parse_index k of
               Some i \<Rightarrow>
                 (if i < length xs then Inr (h[a := HArr (xs[i := x])])
                  else Inr (h[a := HArr (xs @ replicate (i - length xs) Undefined @ [x])]))
             | None \<Rightarrow> Inl Unmodelled)
         | None \<Rightarrow> Inl TypeError)
     | _ \<Rightarrow> Inl TypeError)"

text \<open>
  \<^verbatim>\<open>delete v[k]\<close> in strict code removes an own property: a \<^verbatim>\<open>TypeError\<close> on
  \<^verbatim>\<open>undefined\<close> and \<^verbatim>\<open>null\<close> and on a property that cannot be deleted
  (\<^verbatim>\<open>length\<close>, a character of a string); an element of an array becomes a gap;
  anything that is not an own property is left alone.
\<close>

definition delete_prop :: "heap \<Rightarrow> jsval \<Rightarrow> string \<Rightarrow> js_error + heap" where
  "delete_prop h v k = (case v of
       Undefined \<Rightarrow> Inl TypeError
     | Null \<Rightarrow> Inl TypeError
     | Str s \<Rightarrow> (if k = ''length'' \<or> k \<in> set (index_keys (length s)) then Inl TypeError else Inr h)
     | Ref a \<Rightarrow> (case deref h a of
           Some (HObj pr ps) \<Rightarrow> Inr (h[a := HObj pr (AList.delete k ps)])
         | Some (HArr xs) \<Rightarrow>
             (if k = ''length'' then Inl TypeError
              else (case parse_index k of
                  Some i \<Rightarrow> (if i < length xs then Inr (h[a := HArr (xs[i := Undefined])]) else Inr h)
                | None \<Rightarrow> Inr h))
         | None \<Rightarrow> Inr h)
     | _ \<Rightarrow> Inr h)"

text \<open>\<^verbatim>\<open>field.split('.')\<close>: never empty, \<^verbatim>\<open>''.split('.')\<close> is \<^verbatim>\<open>['']\<close>.\<close>

fun split_dot :: "string \<Rightarrow> string list" where
  "split_dot [] = [[]]"
| "split_dot (c # cs) =
     (if c = CHR ''.'' then [] # split_dot cs
      else (case split_dot cs of p # ps \<Rightarrow> (c # p) # ps | [] \<Rightarrow> [[c]]))"

section \<open>Rules\<close>

text \<open>
  The types of \<^verbatim>\<open>types/index.ts\<close>. An optional member is an \<open>option\<close>; the literal
  \<^verbatim>\<open>value\<close> of a condition or of an action is a value of the store, \<open>Undefined\<close> when the
  member is absent. The operator of a simple condition is kept as the string the rule
  carries, since the code has a branch for an operator it does not know.
\<close>

datatype condition =
    Simple string string jsval
  | Complex "condition list option" "condition list option" "condition option"

datatype action_type = ASet | AAppend | ARemove | ACalculate | ACall

record rule_action =
  a_type :: action_type
  a_field :: "string option"
  a_value :: jsval
  a_expression :: "string option"

record rule_scope =
  s_programId :: "string list option"
  s_issuerId :: "string list option"
  s_country :: "string list option"
  s_role :: "string list option"

record rule =
  ruleId :: string
  name :: string
  enabled :: bool
  scope :: "rule_scope option"
  when' :: condition
  then' :: "rule_action list"
  priority :: int
  stopOnMatch :: "bool option"

datatype strategy = FirstMatch | AllRules | PriorityOrder

record rule_set =
  ruleSetId :: string
  rules :: "rule list"
  strategy :: strategy

record rule_execution_request =
  rq_ruleSetId :: jsval
  rq_context :: jsval
  rq_data :: jsval

record rule_execution_trace =
  t_ruleId :: string
  t_ruleName :: string
  t_matched :: bool
  t_conditionResult :: "bool option"
  t_actionsExecuted :: "nat option"
  t_error :: "js_error option"

record rule_execution_error =
  e_ruleId :: string
  e_error :: js_error

record rule_execution_result =
  success :: bool
  data :: jsval
  executionTrace :: "rule_execution_trace list"
  errors :: "rule_execution_error list option"
  rulesEvaluated :: nat
  rulesMatched :: nat
  correlationId :: jsval

section \<open>What the engine takes from its runtime and its libraries\<close>

text \<open>
  The engine calls code that is not its own: the conversion to a string of
  \<^verbatim>\<open>String(v)\<close> and of a template literal, the relational operators on values of any
  type, \<^verbatim>\<open>new RegExp(p)\<close> with its \<^verbatim>\<open>test\<close>, and the two expression libraries
  behind \<^verbatim>\<open>ExpressionEvaluatorImpl\<close> (\<^verbatim>\<open>expr-eval\<close> and \<^verbatim>\<open>jexl\<close>). They are
  parameters of the embedding; every theorem below holds for any choice of them. The
  conversion and the comparison can throw (an object whose \<^verbatim>\<open>toString\<close> is not a
  function has no primitive value), and so can the compilation of a regular expression,
  which gives the test to run when it succeeds. An expression library returns a value or
  the message of the error it throws, and changes nothing in the store.
\<close>

datatype relop = Gt | Gte | Lt | Lte

record host =
  js_String :: "heap \<Rightarrow> jsval \<Rightarrow> js_error + string"
  js_relational :: "relop \<Rightarrow> heap \<Rightarrow> jsval \<Rightarrow> jsval \<Rightarrow> js_error + bool"
  regexp_compile :: "heap \<Rightarrow> jsval \<Rightarrow> js_error + (string \<Rightarrow> bool)"
  parser_evaluate :: "string \<Rightarrow> (string \<times> jsval) list \<Rightarrow> heap \<Rightarrow> string + jsval"
  jexl_evalSync :: "string \<Rightarrow> (string \<times> jsval) list \<Rightarrow> heap \<Rightarrow> string + jsval"

section \<open>The expression evaluator\<close>

text \<open>
  \<^verbatim>\<open>isSimpleMathExpression\<close> tests \<^verbatim>\<open>/^[\d\s+\-*/(). ]+$/\<close>: one character
  or more, each a digit, white space (that of ASCII here) or one of \<^verbatim>\<open>+ - * / ( ) .\<close>
\<close>

definition is_space :: "char \<Rightarrow> bool" where
  "is_space c = ((of_char c :: nat) \<in> {9, 10, 11, 12, 13, 32})"

definition isSimpleMathExpression :: "string \<Rightarrow> bool" where
  "isSimpleMathExpression expression =
     (expression \<noteq> [] \<and> list_all (\<lambda>c. is_digit c \<or> is_space c \<or> c \<in> set ''+-*/().'') expression)"

definition evaluate :: "host \<Rightarrow> string \<Rightarrow> (string \<times> jsval) list \<Rightarrow> heap \<Rightarrow> js_error + jsval" where
  "evaluate H expression ctx h =
     (case (if isSimpleMathExpression expression then parser_evaluate H expression ctx h
            else jexl_evalSync H expression ctx h) of
        Inl message \<Rightarrow> Inl (Error (''Expression evaluation failed: '' @ message))
      | Inr v \<Rightarrow> Inr v)"

section \<open>Field paths\<close>

definition getNestedValue :: "heap \<Rightarrow> jsval \<Rightarrow> string \<Rightarrow> jsval" where
  "getNestedValue h obj path = foldl (\<lambda>current part. get_prop h current part) obj (split_dot path)"

definition getFieldValue :: "heap \<Rightarrow> string \<Rightarrow> jsval \<Rightarrow> jsval \<Rightarrow> jsval" where
  "getFieldValue h field dat context =
     (if prefix ''context.'' field then getNestedValue h context (drop 8 field)
      else getNestedValue h dat field)"

text \<open>
  The loop of \<^verbatim>\<open>setFieldValue\<close> over all parts but the last. An intermediate segment
  that is missing or falsy is replaced by a new empty object; the store is returned with
  the error, since what was written before a throw stays written.
\<close>

fun set_walk :: "heap \<Rightarrow> jsval \<Rightarrow> string list \<Rightarrow> heap \<times> (js_error + jsval)" where
  "set_walk h current [] = (h, Inr current)"
| "set_walk h current (p # ps) =
     (case get_prop_strict h current p of
        Inl e \<Rightarrow> (h, Inl e)
      | Inr v \<Rightarrow>
          (if \<not> truthy v then
             (let h1 = h @ [HObj Builtin []] in
              case set_prop h1 current p (Ref (length h)) of
                Inl e \<Rightarrow> (h1, Inl e)
              | Inr h2 \<Rightarrow> set_walk h2 (get_prop h2 current p) ps)
           else set_walk h v ps))"

definition setFieldValue :: "heap \<Rightarrow> string \<Rightarrow> jsval \<Rightarrow> jsval \<Rightarrow> heap \<times> js_error option" where
  "setFieldValue h field v dat =
     (let parts = split_dot field in
      case set_walk h dat (butlast parts) of
        (h1, Inl e) \<Rightarrow> (h1, Some e)
      | (h1, Inr current) \<Rightarrow>
          (case set_prop h1 current (last parts) v of
             Inl e \<Rightarrow> (h1, Some e)
           | Inr h2 \<Rightarrow> (h2, None)))"

section \<open>Conditions\<close>

text \<open>
  \<^verbatim>\<open>===\<close> and \<^verbatim>\<open>Array.prototype.includes\<close> compare primitives by value and objects
  by identity, which is equality of \<open>jsval\<close>. \<^verbatim>\<open>every\<close> and \<^verbatim>\<open>some\<close> call the
  predicate on the children in order and stop at the first child that decides; a child
  that throws ends the evaluation with its error.
\<close>

definition array_elems :: "heap \<Rightarrow> jsval \<Rightarrow> jsval list option" where
  "array_elems h v = (case v of
       Ref a \<Rightarrow> (case deref h a of Some (HArr xs) \<Rightarrow> Some xs | _ \<Rightarrow> None)
     | _ \<Rightarrow> None)"

text \<open>
  \<^verbatim>\<open>String(a).includes(String(b))\<close> and its like: both conversions in the order the
  code writes them, then the test on the two strings.
\<close>

definition on_strings ::
  "host \<Rightarrow> heap \<Rightarrow> jsval \<Rightarrow> jsval \<Rightarrow> (string \<Rightarrow> string \<Rightarrow> bool) \<Rightarrow> js_error + bool" where
  "on_strings H h a b test =
     (case js_String H h a of
        Inl e \<Rightarrow> Inl e
      | Inr s \<Rightarrow> (case js_String H h b of Inl e \<Rightarrow> Inl e | Inr t \<Rightarrow> Inr (test s t)))"

definition evaluateSimpleCondition ::
  "host \<Rightarrow> heap \<Rightarrow> string \<Rightarrow> string \<Rightarrow> jsval \<Rightarrow> jsval \<Rightarrow> jsval \<Rightarrow> js_error + bool" where
  "evaluateSimpleCondition H h field op compareValue dat context =
     (let fieldValue = getFieldValue h field dat context in
      if op = ''eq'' then Inr (fieldValue = compareValue)
      else if op = ''ne'' then Inr (fieldValue \<noteq> compareValue)
      else if op = ''gt'' then js_relational H Gt h fieldValue compareValue
      else if op = ''gte'' then js_relational H Gte h fieldValue compareValue
      else if op = ''lt'' then js_relational H Lt h fieldValue compareValue
      else if op = ''lte'' then js_relational H Lte h fieldValue compareValue
      else if op = ''in'' then
        Inr (case array_elems h compareValue of Some xs \<Rightarrow> fieldValue \<in> set xs | None \<Rightarrow> False)
      else if op = ''nin'' then
        Inr (case array_elems h compareValue of Some xs \<Rightarrow> fieldValue \<notin> set xs | None \<Rightarrow> False)
      else if op = ''contains'' then
        on_strings H h fieldValue compareValue (\<lambda>s t. sublist t s)
      else if op = ''startsWith'' then
        on_strings H h fieldValue compareValue (\<lambda>s t. prefix t s)
      else if op = ''endsWith'' then
        on_strings H h fieldValue compareValue (\<lambda>s t. suffix t s)
      else if op = ''matches'' then
        (case regexp_compile H h compareValue of
           Inl e \<Rightarrow> Inl e
         | Inr test \<Rightarrow> (case js_String H h fieldValue of Inl e \<Rightarrow> Inl e | Inr s \<Rightarrow> Inr (test s)))
      else Inl (Error (''Unknown operator: '' @ op)))"

text \<open>
  \<^verbatim>\<open>evaluateCondition\<close> with \<^verbatim>\<open>evaluateComplexCondition\<close>: a condition with
  \<^verbatim>\<open>field\<close> and \<^verbatim>\<open>op\<close> is simple; of a complex one the first member present among
  \<^verbatim>\<open>all\<close>, \<^verbatim>\<open>any\<close>, \<^verbatim>\<open>not\<close> decides (a list, even empty, and a condition object
  are truthy), and a condition with none of them is \<^verbatim>\<open>false\<close>.
\<close>

fun evaluateCondition :: "host \<Rightarrow> heap \<Rightarrow> jsval \<Rightarrow> jsval \<Rightarrow> condition \<Rightarrow> js_error + bool"
  and every_condition :: "host \<Rightarrow> heap \<Rightarrow> jsval \<Rightarrow> jsval \<Rightarrow> condition list \<Rightarrow> js_error + bool"
  and some_condition :: "host \<Rightarrow> heap \<Rightarrow> jsval \<Rightarrow> jsval \<Rightarrow> condition list \<Rightarrow> js_error + bool"
where
  "evaluateCondition H h dat context (Simple field op v) =
     evaluateSimpleCondition H h field op v dat context"
| "evaluateCondition H h dat context (Complex (Some cs) any_m not_m) =
     every_condition H h dat context cs"
| "evaluateCondition H h dat context (Complex None (Some cs) not_m) =
     some_condition H h dat context cs"
| "evaluateCondition H h dat context (Complex None None (Some c)) =
     (case evaluateCondition H h dat context c of Inl e \<Rightarrow> Inl e | Inr b \<Rightarrow> Inr (\<not> b))"
| "evaluateCondition H h dat context (Complex None None None) = Inr False"
| "every_condition H h dat context [] = Inr True"
| "every_condition H h dat context (c # cs) =
     (case evaluateCondition H h dat context c of
        Inl e \<Rightarrow> Inl e
      | Inr b \<Rightarrow> (if b then every_condition H h dat context cs else Inr False))"
| "some_condition H h dat context [] = Inr False"
| "some_condition H h dat context (c # cs) =
     (case evaluateCondition H h dat context c of
        Inl e \<Rightarrow> Inl e
      | Inr b \<Rightarrow> (if b then Inr True else some_condition H h dat context cs))"

section \<open>Actions\<close>

text \<open>
  \<^verbatim>\<open>action.field && ...\<close> and \<^verbatim>\<open>action.expression\<close> test a string that may be
  absent: absent and empty are both falsy.
\<close>

definition str_or_empty :: "string option \<Rightarrow> string" where
  "str_or_empty s = (case s of Some t \<Rightarrow> t | None \<Rightarrow> [])"

text \<open>The object \<^verbatim>\<open>{ ...data, ...context }\<close> handed to the expression evaluator.\<close>

definition expression_scope :: "heap \<Rightarrow> jsval \<Rightarrow> jsval \<Rightarrow> (string \<times> jsval) list" where
  "expression_scope h dat context = spread (own_props h dat) (own_props h context)"

definition calculate_into :: "host \<Rightarrow> heap \<Rightarrow> jsval \<Rightarrow> jsval \<Rightarrow> string \<Rightarrow> string \<Rightarrow> heap \<times> (js_error + nat)" where
  "calculate_into H h dat context field expression =
     (case evaluate H expression (expression_scope h dat context) h of
        Inl e \<Rightarrow> (h, Inl e)
      | Inr v \<Rightarrow> (case setFieldValue h field v dat of
            (h1, Some e) \<Rightarrow> (h1, Inl e)
          | (h1, None) \<Rightarrow> (h1, Inr 1)))"

text \<open>
  One turn of the loop of \<^verbatim>\<open>executeActions\<close>: the \<^verbatim>\<open>switch\<close> on the action type.
  The number returned is what the turn adds to \<^verbatim>\<open>executed\<close>; an error is what the
  \<^verbatim>\<open>catch\<close> logs and throws again.
\<close>

definition action_step :: "host \<Rightarrow> heap \<Rightarrow> jsval \<Rightarrow> jsval \<Rightarrow> rule_action \<Rightarrow> heap \<times> (js_error + nat)" where
  "action_step H h dat context action =
     (let field = str_or_empty (a_field action);
          expression = str_or_empty (a_expression action) in
      case a_type action of
        ASet \<Rightarrow>
          (if field \<noteq> [] \<and> a_value action \<noteq> Undefined then
             (case setFieldValue h field (a_value action) dat of
                (h1, Some e) \<Rightarrow> (h1, Inl e)
              | (h1, None) \<Rightarrow> (h1, Inr 1))
           else if field \<noteq> [] \<and> expression \<noteq> [] then
             calculate_into H h dat context field expression
           else (h, Inr 0))
      | AAppend \<Rightarrow>
          (if field \<noteq> [] \<and> a_value action \<noteq> Undefined then
             (case getFieldValue h field dat context of
                Ref a \<Rightarrow> (case deref h a of
                    Some (HArr xs) \<Rightarrow> (h[a := HArr (xs @ [a_value action])], Inr 1)
                  | _ \<Rightarrow> (h, Inr 0))
              | _ \<Rightarrow> (h, Inr 0))
           else (h, Inr 0))
      | ARemove \<Rightarrow>
          (if field \<noteq> [] then
             (case delete_prop h dat field of
                Inl e \<Rightarrow> (h, Inl e)
              | Inr h1 \<Rightarrow> (h1, Inr 1))
           else (h, Inr 0))
      | ACalculate \<Rightarrow>
          (if field \<noteq> [] \<and> expression \<noteq> [] then
             calculate_into H h dat context field expression
           else (h, Inr 0))
      | ACall \<Rightarrow> (h, Inr 0))"

fun actions_loop ::
  "host \<Rightarrow> heap \<Rightarrow> jsval \<Rightarrow> jsval \<Rightarrow> rule_action list \<Rightarrow> nat \<Rightarrow> heap \<times> (js_error + nat)" where
  "actions_loop H h dat context [] executed = (h, Inr executed)"
| "actions_loop H h dat context (action # actions) executed =
     (case action_step H h dat context action of
        (h1, Inl e) \<Rightarrow> (h1, Inl e)
      | (h1, Inr n) \<Rightarrow> actions_loop H h1 dat context actions (executed + n))"

definition executeActions ::
  "host \<Rightarrow> heap \<Rightarrow> rule_action list \<Rightarrow> jsval \<Rightarrow> jsval \<Rightarrow> heap \<times> (js_error + nat)" where
  "executeActions H h actions dat context = actions_loop H h dat context actions 0"

section \<open>Scope filter and priority order\<close>

text \<open>
  The predicate of the \<^verbatim>\<open>filter\<close> in \<^verbatim>\<open>filterRulesByScope\<close>. A dimension of the
  scope restricts when its list is present and not empty. The context is an object here
  (\<^verbatim>\<open>execute\<close> has read \<^verbatim>\<open>context.data\<close> before), and \<^verbatim>\<open>includes\<close> compares as
  \<^verbatim>\<open>===\<close> does.
\<close>

definition allow_list :: "string list option \<Rightarrow> string list" where
  "allow_list m = (case m of Some xs \<Rightarrow> xs | None \<Rightarrow> [])"

definition includes_str :: "string list \<Rightarrow> jsval \<Rightarrow> bool" where
  "includes_str xs v = (v \<in> set (map Str xs))"

definition rule_in_scope :: "heap \<Rightarrow> jsval \<Rightarrow> rule \<Rightarrow> bool" where
  "rule_in_scope h context r =
     (if \<not> enabled r then False
      else case scope r of
        None \<Rightarrow> True
      | Some sc \<Rightarrow>
          (if allow_list (s_programId sc) \<noteq> [] \<and>
              (\<not> truthy (get_prop h context ''programId'') \<or>
               \<not> includes_str (allow_list (s_programId sc)) (get_prop h context ''programId''))
           then False
           else if allow_list (s_issuerId sc) \<noteq> [] \<and>
              (\<not> truthy (get_prop h context ''issuerId'') \<or>
               \<not> includes_str (allow_list (s_issuerId sc)) (get_prop h context ''issuerId''))
           then False
           else if allow_list (s_country sc) \<noteq> [] \<and>
              \<not> includes_str (allow_list (s_country sc)) (get_prop h context ''country'')
           then False
           else if allow_list (s_role sc) \<noteq> [] \<and>
              \<not> includes_str (allow_list (s_role sc)) (get_prop h context ''userRole'')
           then False
           else True))"

definition filterRulesByScope :: "heap \<Rightarrow> rule list \<Rightarrow> jsval \<Rightarrow> rule list" where
  "filterRulesByScope h rs context = filter (rule_in_scope h context) rs"

text \<open>
  \<^verbatim>\<open>Array.prototype.sort\<close> with a comparator is a stable sort: \<open>a\<close> comes before \<open>b\<close>
  when \<open>cmp a b < 0\<close>, and elements that compare equal keep their order. For a comparator
  that is a total preorder, as a difference of integers is, that fixes the result, which
  the insertion sort below computes.
\<close>

fun insert_by :: "('a \<Rightarrow> 'a \<Rightarrow> int) \<Rightarrow> 'a \<Rightarrow> 'a list \<Rightarrow> 'a list" where
  "insert_by cmp x [] = [x]"
| "insert_by cmp x (y # ys) = (if cmp x y \<le> 0 then x # y # ys else y # insert_by cmp x ys)"

definition js_sort :: "('a \<Rightarrow> 'a \<Rightarrow> int) \<Rightarrow> 'a list \<Rightarrow> 'a list" where
  "js_sort cmp xs = foldr (insert_by cmp) xs []"

definition sortRulesByPriority :: "rule list \<Rightarrow> rule list" where
  "sortRulesByPriority rs = js_sort (\<lambda>a b. priority b - priority a) rs"

section \<open>The pass over the rules\<close>

record pass_state =
  p_heap :: heap
  p_trace :: "rule_execution_trace list"
  p_errors :: "rule_execution_error list"
  p_matched :: nat

definition rule_failed :: "rule \<Rightarrow> js_error \<Rightarrow> heap \<Rightarrow> pass_state \<Rightarrow> pass_state" where
  "rule_failed r e h st =
     st\<lparr>p_heap := h,
        p_errors := p_errors st @ [\<lparr>e_ruleId = ruleId r, e_error = e\<rparr>],
        p_trace := p_trace st @
          [\<lparr>t_ruleId = ruleId r, t_ruleName = name r, t_matched = False,
            t_conditionResult = None, t_actionsExecuted = None, t_error = Some e\<rparr>]\<rparr>"

definition rule_traced :: "rule \<Rightarrow> bool \<Rightarrow> nat option \<Rightarrow> rule_execution_trace" where
  "rule_traced r conditionResult n =
     \<lparr>t_ruleId = ruleId r, t_ruleName = name r, t_matched = conditionResult,
      t_conditionResult = Some conditionResult, t_actionsExecuted = n, t_error = None\<rparr>"

text \<open>
  The \<^verbatim>\<open>for\<close> loop of \<^verbatim>\<open>execute\<close> over the sorted rules, from the state the pass has
  reached. A rule whose condition or actions throw is recorded and the loop goes on; a
  rule that matched and whose actions returned ends the loop when it has
  \<^verbatim>\<open>stopOnMatch\<close> or the strategy is \<^verbatim>\<open>first-match\<close>.
\<close>

fun rule_loop ::
  "host \<Rightarrow> strategy \<Rightarrow> jsval \<Rightarrow> jsval \<Rightarrow> rule list \<Rightarrow> pass_state \<Rightarrow> pass_state" where
  "rule_loop H strat dat context [] st = st"
| "rule_loop H strat dat context (r # rs) st =
     (case evaluateCondition H (p_heap st) dat context (when' r) of
        Inl e \<Rightarrow> rule_loop H strat dat context rs (rule_failed r e (p_heap st) st)
      | Inr conditionResult \<Rightarrow>
          (if conditionResult then
             (case executeActions H (p_heap st) (then' r) dat context of
                (h1, Inl e) \<Rightarrow> rule_loop H strat dat context rs (rule_failed r e h1 st)
              | (h1, Inr actionsExecuted) \<Rightarrow>
                  (let st1 = st\<lparr>p_heap := h1, p_matched := p_matched st + 1\<rparr>;
                       trace = rule_traced r conditionResult (Some actionsExecuted) in
                   if stopOnMatch r = Some True \<or> strat = FirstMatch
                   then st1\<lparr>p_trace := p_trace st1 @ [trace]\<rparr>
                   else rule_loop H strat dat context rs (st1\<lparr>p_trace := p_trace st1 @ [trace]\<rparr>)))
           else rule_loop H strat dat context rs
                  (st\<lparr>p_trace := p_trace st @ [rule_traced r conditionResult None]\<rparr>)))"

section \<open>Execute\<close>

text \<open>
  \<^verbatim>\<open>loadRuleSet\<close> asks the rule storage, which answers with a rule set or with
  \<^verbatim>\<open>null\<close> (it catches its own failures): the parameter \<open>provider\<close>. The result of
  \<^verbatim>\<open>execute\<close> is \<open>Inl\<close> when the call throws, and otherwise the result object with the
  store the call leaves behind.

  Before its \<^verbatim>\<open>try\<close>, the code reads \<^verbatim>\<open>context.data\<close>, makes the record, and logs
  \<^verbatim>\<open>`Executing ruleset: ${request.ruleSetId}`\<close>: the template literal converts the
  rule set id to a string, and a conversion that throws is thrown by \<^verbatim>\<open>execute\<close>.
  Inside the \<^verbatim>\<open>try\<close>, the message of the error for a rule set that is not found
  converts the id once more, and whatever is thrown there is caught.
\<close>

definition fatal_result :: "heap \<Rightarrow> jsval \<Rightarrow> jsval \<Rightarrow> js_error \<Rightarrow> rule_execution_result" where
  "fatal_result h dat context e =
     \<lparr>success = False, data = dat, executionTrace = [],
      errors = Some [\<lparr>e_ruleId = ''SYSTEM'', e_error = e\<rparr>],
      rulesEvaluated = 0, rulesMatched = 0,
      correlationId = get_prop h context ''correlationId''\<rparr>"

definition execute ::
  "host \<Rightarrow> (jsval \<Rightarrow> rule_set option) \<Rightarrow> rule_execution_request \<Rightarrow> heap
     \<Rightarrow> js_error + (rule_execution_result \<times> heap)" where
  "execute H provider request h =
     (let context = rq_context request; requestData = rq_data request in
      case get_prop_strict h context ''data'' of
        Inl e \<Rightarrow> Inl e
      | Inr contextData \<Rightarrow>
          (let dat = Ref (length h);
               h0 = h @ [HObj Builtin (spread (own_props h contextData) (own_props h requestData))] in
           case js_String H h0 (rq_ruleSetId request) of
             Inl e \<Rightarrow> Inl e
           | Inr logged \<Rightarrow>
               (case provider (rq_ruleSetId request) of
                  None \<Rightarrow>
                    (case js_String H h0 (rq_ruleSetId request) of
                       Inl e \<Rightarrow> Inr (fatal_result h0 dat context e, h0)
                     | Inr shown \<Rightarrow>
                         Inr (fatal_result h0 dat context (Error (''RuleSet not found: '' @ shown)), h0))
                | Some ruleSet \<Rightarrow>
                    (let applicableRules = filterRulesByScope h0 (rules ruleSet) context;
                         sortedRules = sortRulesByPriority applicableRules;
                         st = rule_loop H (strategy ruleSet) dat context sortedRules
                                \<lparr>p_heap = h0, p_trace = [], p_errors = [], p_matched = 0\<rparr> in
                     Inr (\<lparr>success = (p_errors st = []), data = dat, executionTrace = p_trace st,
                           errors = (if p_errors st \<noteq> [] then Some (p_errors st) else None),
                           rulesEvaluated = length sortedRules, rulesMatched = p_matched st,
                           correlationId = get_prop (p_heap st) context ''correlationId''\<rparr>,
                          p_heap st)))))"

section \<open>Conditions on a call stack\<close>

text \<open>
  \<^verbatim>\<open>evaluateCondition\<close> and \<^verbatim>\<open>evaluateComplexCondition\<close> call each other once for
  each level of a condition, with no count of the levels. The calls are held by the call
  stack of the runtime, and a call that does not fit throws a \<^verbatim>\<open>RangeError\<close>. The
  functions above take the stack as deep enough. The ones below count it, in calls:
  \<open>k\<close> is the number of nested calls the stack still holds when \<^verbatim>\<open>evaluateCondition\<close>
  is called; \<^verbatim>\<open>evaluateCondition\<close>, the type guard \<^verbatim>\<open>isSimpleCondition\<close>,
  \<^verbatim>\<open>evaluateComplexCondition\<close>, \<^verbatim>\<open>every\<close> or \<^verbatim>\<open>some\<close> and their callback each take
  one; \<open>leaf\<close> is the number \<^verbatim>\<open>evaluateSimpleCondition\<close> takes, with what it calls in
  turn.
\<close>

fun evaluateCondition_within ::
    "host \<Rightarrow> nat \<Rightarrow> nat \<Rightarrow> heap \<Rightarrow> jsval \<Rightarrow> jsval \<Rightarrow> condition \<Rightarrow> js_error + bool"
  and every_within ::
    "host \<Rightarrow> nat \<Rightarrow> nat \<Rightarrow> heap \<Rightarrow> jsval \<Rightarrow> jsval \<Rightarrow> condition list \<Rightarrow> js_error + bool"
  and some_within ::
    "host \<Rightarrow> nat \<Rightarrow> nat \<Rightarrow> heap \<Rightarrow> jsval \<Rightarrow> jsval \<Rightarrow> condition list \<Rightarrow> js_error + bool"
where
  "evaluateCondition_within H leaf k h dat context (Simple field op v) =
     (if k < 2 \<or> k < 1 + leaf then Inl RangeError
      else evaluateSimpleCondition H h field op v dat context)"
| "evaluateCondition_within H leaf k h dat context (Complex (Some cs) any_m not_m) =
     (if k < 3 then Inl RangeError else every_within H leaf (k - 3) h dat context cs)"
| "evaluateCondition_within H leaf k h dat context (Complex None (Some cs) not_m) =
     (if k < 3 then Inl RangeError else some_within H leaf (k - 3) h dat context cs)"
| "evaluateCondition_within H leaf k h dat context (Complex None None (Some c)) =
     (if k < 2 then Inl RangeError
      else (case evaluateCondition_within H leaf (k - 2) h dat context c of
              Inl e \<Rightarrow> Inl e
            | Inr b \<Rightarrow> Inr (\<not> b)))"
| "evaluateCondition_within H leaf k h dat context (Complex None None None) =
     (if k < 2 then Inl RangeError else Inr False)"
| "every_within H leaf k h dat context [] = Inr True"
| "every_within H leaf k h dat context (c # cs) =
     (if k < 1 then Inl RangeError
      else (case evaluateCondition_within H leaf (k - 1) h dat context c of
              Inl e \<Rightarrow> Inl e
            | Inr b \<Rightarrow> (if b then every_within H leaf k h dat context cs else Inr False)))"
| "some_within H leaf k h dat context [] = Inr False"
| "some_within H leaf k h dat context (c # cs) =
     (if k < 1 then Inl RangeError
      else (case evaluateCondition_within H leaf (k - 1) h dat context c of
              Inl e \<Rightarrow> Inl e
            | Inr b \<Rightarrow> (if b then Inr True else some_within H leaf k h dat context cs)))"

section \<open>Notions used in the properties\<close>



text \<open>\<open>n\<close> nested \<^verbatim>\<open>not\<close> around a condition, and the nesting depth of a condition.\<close>

fun nest_not :: "nat \<Rightarrow> condition \<Rightarrow> condition" where
  "nest_not 0 c = c"
| "nest_not (Suc n) c = Complex None None (Some (nest_not n c))"

fun condition_depth :: "condition \<Rightarrow> nat"
  and conditions_depth :: "condition list \<Rightarrow> nat"
where
  "condition_depth (Simple field op v) = 0"
| "condition_depth (Complex all_m any_m not_m) =
     Suc (max (case all_m of Some cs \<Rightarrow> conditions_depth cs | None \<Rightarrow> 0)
          (max (case any_m of Some cs \<Rightarrow> conditions_depth cs | None \<Rightarrow> 0)
               (case not_m of Some c \<Rightarrow> condition_depth c | None \<Rightarrow> 0)))"
| "conditions_depth [] = 0"
| "conditions_depth (c # cs) = max (condition_depth c) (conditions_depth cs)"

text \<open>
  The nested calls that the evaluation of a condition takes at most, counted as in
  \<open>evaluateCondition_within\<close>: two and those of the child for a \<^verbatim>\<open>not\<close>, four and
  those of the deepest child for \<^verbatim>\<open>all\<close> and \<^verbatim>\<open>any\<close>.
\<close>

fun calls_needed :: "nat \<Rightarrow> condition \<Rightarrow> nat"
  and calls_needed_list :: "nat \<Rightarrow> condition list \<Rightarrow> nat"
where
  "calls_needed leaf (Simple field op v) = max 2 (1 + leaf)"
| "calls_needed leaf (Complex (Some cs) any_m not_m) = 3 + calls_needed_list leaf cs"
| "calls_needed leaf (Complex None (Some cs) not_m) = 3 + calls_needed_list leaf cs"
| "calls_needed leaf (Complex None None (Some c)) = 2 + calls_needed leaf c"
| "calls_needed leaf (Complex None None None) = 2"
| "calls_needed_list leaf [] = 0"
| "calls_needed_list leaf (c # cs) = max (1 + calls_needed leaf c) (calls_needed_list leaf cs)"

text \<open>
  An action that writes to the record object only: \<^verbatim>\<open>remove\<close> and \<^verbatim>\<open>call\<close>, and
  \<^verbatim>\<open>set\<close> or \<^verbatim>\<open>calculate\<close> on a field path without a dot.
\<close>

definition top_level_action :: "rule_action \<Rightarrow> bool" where
  "top_level_action a =
     (a_type a = ARemove \<or> a_type a = ACall \<or>
      ((a_type a = ASet \<or> a_type a = ACalculate) \<and> CHR ''.'' \<notin> set (str_or_empty (a_field a))))"

section \<open>A runtime and inputs to run the engine on\<close>

text \<open>
  A runtime cut down to what the examples below call. The conversion to a string is
  that of JavaScript on primitives, on objects (\<^verbatim>\<open>[object Object]\<close> through the
  built-in \<^verbatim>\<open>toString\<close>, a \<^verbatim>\<open>TypeError\<close> when \<^verbatim>\<open>toString\<close> is a property of the
  object or of a prototype of the store, which is no function, or when the chain has
  none) and on arrays (the elements joined by commas, \<^verbatim>\<open>null\<close> and \<^verbatim>\<open>undefined\<close>
  as the empty string). The relational operators compare two numbers and are false
  otherwise; no regular expression compiles; \<^verbatim>\<open>jexl\<close> evaluates an expression that
  is a single identifier, which it looks up in the object it is given (\<^verbatim>\<open>undefined\<close>
  when absent), and nothing else; \<^verbatim>\<open>expr-eval\<close> evaluates nothing.
\<close>

definition is_identifier :: "string \<Rightarrow> bool" where
  "is_identifier e = (e \<noteq> [] \<and> \<not> is_digit (hd e) \<and>
     list_all (\<lambda>c. is_digit c \<or> c = CHR ''_'' \<or> c = CHR ''$''
        \<or> (65 \<le> (of_char c :: nat) \<and> (of_char c :: nat) \<le> 90)
        \<or> (97 \<le> (of_char c :: nat) \<and> (of_char c :: nat) \<le> 122)) e)"

fun first_error :: "(js_error + 'a) list \<Rightarrow> js_error + 'a list" where
  "first_error [] = Inr []"
| "first_error (x # xs) =
     (case x of
        Inl e \<Rightarrow> Inl e
      | Inr y \<Rightarrow> (case first_error xs of Inl e \<Rightarrow> Inl e | Inr ys \<Rightarrow> Inr (y # ys)))"

fun join_commas :: "string list \<Rightarrow> string" where
  "join_commas [] = []"
| "join_commas [s] = s"
| "join_commas (s # t # ss) = s @ '','' @ join_commas (t # ss)"

fun example_String :: "nat \<Rightarrow> heap \<Rightarrow> jsval \<Rightarrow> js_error + string" where
  "example_String fuel h Undefined = Inr ''undefined''"
| "example_String fuel h Null = Inr ''null''"
| "example_String fuel h (Bool b) = Inr (if b then ''true'' else ''false'')"
| "example_String fuel h (Num n) =
     Inr (if n < 0 then CHR ''-'' # show_nat (nat (- n)) else show_nat (nat n))"
| "example_String fuel h (Str s) = Inr s"
| "example_String 0 h (Ref a) =
     (case deref h a of
        Some (HObj pr ps) \<Rightarrow>
          (if chain_lookup (length h) h (Ref a) ''toString'' = From_builtin
           then Inr ''[object Object]'' else Inl TypeError)
      | Some (HArr xs) \<Rightarrow> Inr []
      | None \<Rightarrow> Inl TypeError)"
| "example_String (Suc fuel) h (Ref a) =
     (case deref h a of
        Some (HObj pr ps) \<Rightarrow>
          (if chain_lookup (length h) h (Ref a) ''toString'' = From_builtin
           then Inr ''[object Object]'' else Inl TypeError)
      | Some (HArr xs) \<Rightarrow>
          (case first_error
                  (map (\<lambda>x. if x = Undefined \<or> x = Null then Inr [] else example_String fuel h x) xs) of
             Inl e \<Rightarrow> Inl e
           | Inr ss \<Rightarrow> Inr (join_commas ss))
      | None \<Rightarrow> Inl TypeError)"

definition example_host :: host where
  "example_host =
     \<lparr>js_String = (\<lambda>h v. example_String (length h) h v),
      js_relational = (\<lambda>op h a b. case (a, b) of
          (Num x, Num y) \<Rightarrow>
            Inr (case op of Gt \<Rightarrow> x > y | Gte \<Rightarrow> x \<ge> y | Lt \<Rightarrow> x < y | Lte \<Rightarrow> x \<le> y)
        | _ \<Rightarrow> Inr False),
      regexp_compile = (\<lambda>h p. Inl SyntaxError),
      parser_evaluate = (\<lambda>e sc h. Inl ''unsupported expression''),
      jexl_evalSync = (\<lambda>e sc h.
         if is_identifier e then Inr (case map_of sc e of Some v \<Rightarrow> v | None \<Rightarrow> Undefined)
         else Inl ''unsupported expression'')\<rparr>"

text \<open>The condition \<^verbatim>\<open>{ all: [] }\<close>, a rule that always matches, and an action on a field.\<close>

definition always :: condition where
  "always = Complex (Some []) None None"

definition mk_rule :: "string \<Rightarrow> int \<Rightarrow> bool option \<Rightarrow> rule_action list \<Rightarrow> rule" where
  "mk_rule rid p stop acts =
     \<lparr>ruleId = rid, name = rid, enabled = True, scope = None,
      when' = always, then' = acts, priority = p, stopOnMatch = stop\<rparr>"

definition mk_action :: "action_type \<Rightarrow> string \<Rightarrow> jsval \<Rightarrow> string option \<Rightarrow> rule_action" where
  "mk_action t f v e = \<lparr>a_type = t, a_field = Some f, a_value = v, a_expression = e\<rparr>"

text \<open>
  A store with a context at address 0
  (\<^verbatim>\<open>{ data: { flags: ['A'], customer: { name: 'n' }, country: 'XX' }, correlationId: 'c1', country: 'DE' }\<close>)
  and a request that names it and carries no data of its own.
\<close>

definition ex_heap :: heap where
  "ex_heap =
     [HObj Builtin [(''data'', Ref 1), (''correlationId'', Str ''c1''), (''country'', Str ''DE'')],
      HObj Builtin [(''flags'', Ref 2), (''customer'', Ref 3), (''country'', Str ''XX'')],
      HArr [Str ''A''],
      HObj Builtin [(''name'', Str ''n'')]]"

definition ex_request :: rule_execution_request where
  "ex_request = \<lparr>rq_ruleSetId = Str ''rs1'', rq_context = Ref 0, rq_data = Undefined\<rparr>"

definition ex_ruleset :: "rule list \<Rightarrow> rule_set" where
  "ex_ruleset rs = \<lparr>ruleSetId = ''rs1'', rules = rs, strategy = AllRules\<rparr>"

section \<open>Priority order\<close>

lemma insert_by_insort:
  "insert_by (\<lambda>a b. f b - f a) x ys = insort_key (\<lambda>r. - f r) x ys"
  for f :: "'a \<Rightarrow> int"
  by (induction ys) auto

lemma js_sort_sort_key:
  "js_sort (\<lambda>a b. f b - f a) xs = sort_key (\<lambda>r. - f r) xs"
  for f :: "'a \<Rightarrow> int"
  by (induction xs) (auto simp: js_sort_def insert_by_insort)

lemma set_sortRulesByPriority: "set (sortRulesByPriority rs) = set rs"
  by (simp add: sortRulesByPriority_def js_sort_sort_key)

text \<open>
  Claim C6. \<^verbatim>\<open>sortRulesByPriority\<close> is a stable sort by descending priority: its result
  is a rearrangement of the rules, a rule never comes before one of higher priority, and
  the rules of any one priority come in the order they had in the input.
\<close>

theorem sortRulesByPriority_stable:
  "mset (sortRulesByPriority rs) = mset rs
   \<and> sorted_wrt (\<lambda>a b. priority b \<le> priority a) (sortRulesByPriority rs)
   \<and> (\<forall>p. filter (\<lambda>r. priority r = p) (sortRulesByPriority rs) = filter (\<lambda>r. priority r = p) rs)"
proof -
  let ?key = "\<lambda>r. - priority r"
  have eq: "sortRulesByPriority rs = sort_key ?key rs"
    by (simp add: sortRulesByPriority_def js_sort_sort_key)
  have "sorted (map ?key (sort_key ?key rs))"
    by (rule sorted_sort_key)
  then have ordered: "sorted_wrt (\<lambda>a b. priority b \<le> priority a) (sort_key ?key rs)"
    by (simp add: sorted_map)
  have stable: "filter (\<lambda>r. priority r = p) (sort_key ?key rs) = filter (\<lambda>r. priority r = p) rs" for p
    using sort_key_stable [of ?key "- p" rs] by simp
  show ?thesis
    unfolding eq using ordered stable by simp
qed

text \<open>The example of the specification: priorities 10, 20, 10 come out as 20, 10 (first), 10 (second).\<close>

theorem sortRulesByPriority_stable_witness:
  "map ruleId (sortRulesByPriority
      [mk_rule ''first'' 10 None [], mk_rule ''high'' 20 None [], mk_rule ''second'' 10 None []])
     = [''high'', ''first'', ''second'']
   \<and> filter (\<lambda>r. priority r = 10) (sortRulesByPriority
      [mk_rule ''first'' 10 None [], mk_rule ''high'' 20 None [], mk_rule ''second'' 10 None []])
     = [mk_rule ''first'' 10 None [], mk_rule ''second'' 10 None []]"
proof -
  have "map ruleId (sortRulesByPriority
      [mk_rule ''first'' 10 None [], mk_rule ''high'' 20 None [], mk_rule ''second'' 10 None []])
     = [''high'', ''first'', ''second'']"
    by code_simp
  then show ?thesis
    using sortRulesByPriority_stable
      [of "[mk_rule ''first'' 10 None [], mk_rule ''high'' 20 None [], mk_rule ''second'' 10 None []]"]
    by (simp add: mk_rule_def)
qed

section \<open>Conditions\<close>

text \<open>
  Claim C7. A double \<^verbatim>\<open>not\<close> evaluates as the condition under it does (to the same
  boolean, or to the same error when the condition throws); \<^verbatim>\<open>all\<close> of no children is
  true and \<^verbatim>\<open>any\<close> of no children is false.
\<close>

theorem double_not_and_empty_combinators:
  "evaluateCondition H h dat ctx (Complex None None (Some (Complex None None (Some c))))
     = evaluateCondition H h dat ctx c
   \<and> evaluateCondition H h dat ctx (Complex (Some []) any_m not_m) = Inr True
   \<and> evaluateCondition H h dat ctx (Complex None (Some []) not_m) = Inr False"
  by (cases "evaluateCondition H h dat ctx c") auto

subsection \<open>Depth\<close>

lemma within_not_chain:
  "evaluateCondition_within H leaf k h dat ctx (nest_not n always) =
     (if 2 * n + 3 \<le> k then Inr (even n) else Inl RangeError)"
proof (induction n arbitrary: k)
  case 0
  show ?case by (simp add: always_def)
next
  case (Suc n)
  have "k < 2 \<or> (2 * n + 3 \<le> k - 2 \<longleftrightarrow> 2 * Suc n + 3 \<le> k)"
    by arith
  moreover have "k < 2 \<longrightarrow> \<not> 2 * Suc n + 3 \<le> k"
    by arith
  ultimately show ?case
    unfolding nest_not.simps evaluateCondition_within.simps Suc.IH by auto
qed

lemma within_enough:
  "calls_needed leaf c \<le> k \<longrightarrow>
     evaluateCondition_within H leaf k h dat ctx c = evaluateCondition H h dat ctx c"
  "calls_needed_list leaf cs \<le> k \<longrightarrow>
     every_within H leaf k h dat ctx cs = every_condition H h dat ctx cs"
  "calls_needed_list leaf cs \<le> k \<longrightarrow>
     some_within H leaf k h dat ctx cs = some_condition H h dat ctx cs"
proof (induction H leaf k h dat ctx c and H leaf k h dat ctx cs and H leaf k h dat ctx cs
    rule: evaluateCondition_within_every_within_some_within.induct)
  case (1 H leaf k h dat ctx field op v)
  show ?case
  proof
    assume "calls_needed leaf (Simple field op v) \<le> k"
    then have "max 2 (1 + leaf) \<le> k" by simp
    then have "\<not> k < 2" and "\<not> k < 1 + leaf" by arith+
    then show "evaluateCondition_within H leaf k h dat ctx (Simple field op v)
        = evaluateCondition H h dat ctx (Simple field op v)"
      by simp
  qed
next
  case (2 H leaf k h dat ctx cs any_m not_m)
  show ?case
  proof
    assume a: "calls_needed leaf (Complex (Some cs) any_m not_m) \<le> k"
    then have "3 + calls_needed_list leaf cs \<le> k" by simp
    then have "\<not> k < 3" and "calls_needed_list leaf cs \<le> k - 3" by arith+
    with 2 show "evaluateCondition_within H leaf k h dat ctx (Complex (Some cs) any_m not_m)
        = evaluateCondition H h dat ctx (Complex (Some cs) any_m not_m)"
      by simp
  qed
next
  case (3 H leaf k h dat ctx cs not_m)
  show ?case
  proof
    assume a: "calls_needed leaf (Complex None (Some cs) not_m) \<le> k"
    then have "3 + calls_needed_list leaf cs \<le> k" by simp
    then have "\<not> k < 3" and "calls_needed_list leaf cs \<le> k - 3" by arith+
    with 3 show "evaluateCondition_within H leaf k h dat ctx (Complex None (Some cs) not_m)
        = evaluateCondition H h dat ctx (Complex None (Some cs) not_m)"
      by simp
  qed
next
  case (4 H leaf k h dat ctx c)
  show ?case
  proof
    assume a: "calls_needed leaf (Complex None None (Some c)) \<le> k"
    then have "2 + calls_needed leaf c \<le> k" by simp
    then have "\<not> k < 2" and "calls_needed leaf c \<le> k - 2" by arith+
    with 4 show "evaluateCondition_within H leaf k h dat ctx (Complex None None (Some c))
        = evaluateCondition H h dat ctx (Complex None None (Some c))"
      by simp
  qed
next
  case (5 H leaf k h dat ctx)
  show ?case by simp
next
  case (6 H leaf k h dat ctx)
  show ?case by simp
next
  case (7 H leaf k h dat ctx c cs)
  show ?case
  proof
    assume a: "calls_needed_list leaf (c # cs) \<le> k"
    then have "1 + calls_needed leaf c \<le> k" and cs: "calls_needed_list leaf cs \<le> k"
      by simp_all
    then have k: "\<not> k < 1" and c: "calls_needed leaf c \<le> k - 1"
      by arith+
    from 7(1) k c have e: "evaluateCondition_within H leaf (k - 1) h dat ctx c
        = evaluateCondition H h dat ctx c" by simp
    show "every_within H leaf k h dat ctx (c # cs) = every_condition H h dat ctx (c # cs)"
    proof (cases "evaluateCondition H h dat ctx c")
      case (Inl err)
      with e k show ?thesis by simp
    next
      case (Inr b)
      with 7(2) [OF k] e cs k show ?thesis by simp
    qed
  qed
next
  case (8 H leaf k h dat ctx)
  show ?case by simp
next
  case (9 H leaf k h dat ctx c cs)
  show ?case
  proof
    assume a: "calls_needed_list leaf (c # cs) \<le> k"
    then have "1 + calls_needed leaf c \<le> k" and cs: "calls_needed_list leaf cs \<le> k"
      by simp_all
    then have k: "\<not> k < 1" and c: "calls_needed leaf c \<le> k - 1"
      by arith+
    from 9(1) k c have e: "evaluateCondition_within H leaf (k - 1) h dat ctx c
        = evaluateCondition H h dat ctx c" by simp
    show "some_within H leaf k h dat ctx (c # cs) = some_condition H h dat ctx (c # cs)"
    proof (cases "evaluateCondition H h dat ctx c")
      case (Inl err)
      with e k show ?thesis by simp
    next
      case (Inr b)
      with 9(2) [OF k] e cs k show ?thesis by simp
    qed
  qed
qed

lemma calls_needed_depth:
  "calls_needed leaf c \<le> 4 * condition_depth c + max 2 (1 + leaf)"
  "cs \<noteq> [] \<longrightarrow> calls_needed_list leaf cs \<le> 4 * conditions_depth cs + 1 + max 2 (1 + leaf)"
proof (induction leaf c and leaf cs rule: calls_needed_calls_needed_list.induct)
  case (1 leaf field op v)
  show ?case by simp
next
  case (2 leaf cs any_m not_m)
  have dep: "Suc (conditions_depth cs) \<le> condition_depth (Complex (Some cs) any_m not_m)"
    by simp
  have need: "calls_needed leaf (Complex (Some cs) any_m not_m) = 3 + calls_needed_list leaf cs"
    by simp
  have "calls_needed_list leaf cs \<le> 4 * conditions_depth cs + 1 + max 2 (1 + leaf)"
    using 2 by (cases cs) simp_all
  with dep need show ?case by arith
next
  case (3 leaf cs not_m)
  have dep: "Suc (conditions_depth cs) \<le> condition_depth (Complex None (Some cs) not_m)"
    by simp
  have need: "calls_needed leaf (Complex None (Some cs) not_m) = 3 + calls_needed_list leaf cs"
    by simp
  have "calls_needed_list leaf cs \<le> 4 * conditions_depth cs + 1 + max 2 (1 + leaf)"
    using 3 by (cases cs) simp_all
  with dep need show ?case by arith
next
  case (4 leaf c)
  have dep: "condition_depth (Complex None None (Some c)) = Suc (condition_depth c)"
    by simp
  have need: "calls_needed leaf (Complex None None (Some c)) = 2 + calls_needed leaf c"
    by simp
  from 4 dep need show ?case by arith
next
  case (5 leaf)
  show ?case by simp
next
  case (6 leaf)
  show ?case by simp
next
  case (7 leaf c cs)
  have need: "calls_needed_list leaf (c # cs) = max (1 + calls_needed leaf c) (calls_needed_list leaf cs)"
    by simp
  have dep: "condition_depth c \<le> conditions_depth (c # cs)" "conditions_depth cs \<le> conditions_depth (c # cs)"
    by simp_all
  have rest: "calls_needed_list leaf cs \<le> 4 * conditions_depth cs + 1 + max 2 (1 + leaf)"
    using 7(2) by (cases cs) simp_all
  from 7(1) need dep rest
  have "calls_needed_list leaf (c # cs) \<le> 4 * conditions_depth (c # cs) + 1 + max 2 (1 + leaf)"
    by arith
  then show ?case by blast
qed

text \<open>
  Claim C9, as the code has it. The evaluation of a condition checks no depth. On a call
  stack that holds the calls it takes (at most four for each level of the condition, and
  those of a simple condition) it gives what the evaluation gives when the stack is taken
  as deep enough, whatever the depth of the condition. The stack is the only bound: a chain
  of \<open>n\<close> \<^verbatim>\<open>not\<close> around \<^verbatim>\<open>{ all: [] }\<close>, a condition of depth \<open>n + 1\<close>, evaluates
  to a boolean when its \<open>2 * n + 3\<close> nested calls fit the stack, and throws a
  \<^verbatim>\<open>RangeError\<close> when they do not.
\<close>

theorem evaluateCondition_any_depth:
  "(calls_needed leaf c \<le> k \<longrightarrow>
      evaluateCondition_within H leaf k h dat ctx c = evaluateCondition H h dat ctx c)
   \<and> (4 * condition_depth c + max 2 (1 + leaf) \<le> k \<longrightarrow>
      evaluateCondition_within H leaf k h dat ctx c = evaluateCondition H h dat ctx c)
   \<and> condition_depth (nest_not n always) = Suc n
   \<and> evaluateCondition_within H leaf k h dat ctx (nest_not n always) =
       (if 2 * n + 3 \<le> k then Inr (even n) else Inl RangeError)"
proof (intro conjI)
  show enough: "calls_needed leaf c \<le> k \<longrightarrow>
      evaluateCondition_within H leaf k h dat ctx c = evaluateCondition H h dat ctx c"
    by (rule within_enough(1))
  show "4 * condition_depth c + max 2 (1 + leaf) \<le> k \<longrightarrow>
      evaluateCondition_within H leaf k h dat ctx c = evaluateCondition H h dat ctx c"
  proof
    assume "4 * condition_depth c + max 2 (1 + leaf) \<le> k"
    with calls_needed_depth(1) [of leaf c] have "calls_needed leaf c \<le> k"
      by (rule order_trans)
    with enough show "evaluateCondition_within H leaf k h dat ctx c = evaluateCondition H h dat ctx c"
      by simp
  qed
  show "evaluateCondition_within H leaf k h dat ctx (nest_not n always) =
       (if 2 * n + 3 \<le> k then Inr (even n) else Inl RangeError)"
    by (rule within_not_chain)
  show "condition_depth (nest_not n always) = Suc n"
    by (induction n) (simp_all add: always_def)
qed

theorem evaluateCondition_any_depth_witness:
  "calls_needed 5 (Simple ''country'' ''eq'' (Str ''XX'')) \<le> 100
   \<and> 4 * condition_depth (Simple ''country'' ''eq'' (Str ''XX'')) + max 2 (1 + 5) \<le> (100::nat)
   \<and> evaluateCondition_within example_host 5 100 ex_heap (Ref 1) (Ref 0)
        (Simple ''country'' ''eq'' (Str ''XX'')) = Inr True
   \<and> evaluateCondition_within example_host 5 100 ex_heap (Ref 1) (Ref 0) (nest_not 40 always) = Inr True
   \<and> evaluateCondition_within example_host 5 100 ex_heap (Ref 1) (Ref 0) (nest_not 5000 always)
        = Inl RangeError"
proof -
  have need: "calls_needed 5 (Simple ''country'' ''eq'' (Str ''XX'')) \<le> 100"
    "4 * condition_depth (Simple ''country'' ''eq'' (Str ''XX'')) + max 2 (1 + 5) \<le> (100::nat)"
    by simp_all
  have leaf: "evaluateCondition example_host ex_heap (Ref 1) (Ref 0) (Simple ''country'' ''eq'' (Str ''XX''))
      = Inr True"
    by (simp add: evaluateSimpleCondition_def getFieldValue_def getNestedValue_def get_prop_def
        own_lookup_def own_props_def has_length_def deref_def ex_heap_def)
  have a: "evaluateCondition_within example_host 5 100 ex_heap (Ref 1) (Ref 0)
        (Simple ''country'' ''eq'' (Str ''XX'')) = Inr True"
    and b: "evaluateCondition_within example_host 5 100 ex_heap (Ref 1) (Ref 0) (nest_not 40 always)
        = Inr True"
    using evaluateCondition_any_depth
      [of 5 "Simple ''country'' ''eq'' (Str ''XX'')" 100 example_host ex_heap "Ref 1" "Ref 0" 40]
      need leaf
    by simp_all
  have c: "evaluateCondition_within example_host 5 100 ex_heap (Ref 1) (Ref 0) (nest_not 5000 always)
        = Inl RangeError"
    using evaluateCondition_any_depth
      [of 5 "Simple ''country'' ''eq'' (Str ''XX'')" 100 example_host ex_heap "Ref 1" "Ref 0" 5000]
    by simp
  from need a b c show ?thesis by simp
qed

text \<open>
  A condition of depth 41, beyond the 32 levels of the specification, evaluates to
  \<^verbatim>\<open>true\<close>, also on a stack of a hundred calls; on that stack a condition of depth 5001
  is not refused on entry but exhausts the stack.
\<close>

theorem depth_limit_counterexample:
  "32 < condition_depth (nest_not 40 always)
   \<and> evaluateCondition example_host ex_heap (Ref 1) (Ref 0) (nest_not 40 always) = Inr True
   \<and> evaluateCondition_within example_host 5 100 ex_heap (Ref 1) (Ref 0) (nest_not 40 always) = Inr True
   \<and> evaluateCondition_within example_host 5 100 ex_heap (Ref 1) (Ref 0) (nest_not 5000 always)
        = Inl RangeError"
proof -
  have "32 < condition_depth (nest_not 40 always)
    \<and> evaluateCondition example_host ex_heap (Ref 1) (Ref 0) (nest_not 40 always) = Inr True"
    by code_simp
  moreover have "evaluateCondition_within example_host 5 100 ex_heap (Ref 1) (Ref 0) (nest_not 40 always)
      = Inr True"
    by (simp add: within_not_chain)
  moreover have "evaluateCondition_within example_host 5 100 ex_heap (Ref 1) (Ref 0) (nest_not 5000 always)
      = Inl RangeError"
    by (simp add: within_not_chain)
  ultimately show ?thesis by blast
qed

section \<open>Actions\<close>

lemma actions_loop_append:
  "actions_loop H h dat ctx (xs @ ys) n =
     (case actions_loop H h dat ctx xs n of
        (h1, Inl e) \<Rightarrow> (h1, Inl e)
      | (h1, Inr m) \<Rightarrow> actions_loop H h1 dat ctx ys m)"
  by (induction xs arbitrary: h n) (auto split: prod.splits sum.splits)

text \<open>
  Claim C10. An action of type \<^verbatim>\<open>call\<close> does nothing: its turn of the loop leaves the
  store as it is, adds nothing to the count and throws nothing, so a list of actions has
  the same outcome with the action as without it.
\<close>

theorem call_action_is_noop:
  "a_type a = ACall \<Longrightarrow>
     action_step H h dat ctx a = (h, Inr 0)
     \<and> executeActions H h (xs @ a # ys) dat ctx = executeActions H h (xs @ ys) dat ctx"
  by (auto simp: executeActions_def actions_loop_append action_step_def split: prod.splits sum.splits)

theorem call_action_is_noop_witness:
  "a_type (mk_action ACall ''fee'' (Num 1) None) = ACall
   \<and> action_step example_host ex_heap (Ref 1) (Ref 0) (mk_action ACall ''fee'' (Num 1) None)
       = (ex_heap, Inr 0)
   \<and> executeActions example_host ex_heap
        [mk_action ASet ''fee'' (Num 1) None, mk_action ACall ''fee'' (Num 1) None] (Ref 1) (Ref 0)
       = executeActions example_host ex_heap [mk_action ASet ''fee'' (Num 1) None] (Ref 1) (Ref 0)"
  using call_action_is_noop
    [of "mk_action ACall ''fee'' (Num 1) None" example_host ex_heap "Ref 1" "Ref 0"
        "[mk_action ASet ''fee'' (Num 1) None]" "[]"]
  by (simp add: mk_action_def)

subsection \<open>The object an expression is evaluated against\<close>

lemma map_of_fold_update:
  "distinct (map fst b) \<Longrightarrow>
     map_of (fold (\<lambda>(k, v) acc. AList.update k v acc) b acc) = map_of acc ++ map_of b"
proof (induction b arbitrary: acc)
  case Nil
  then show ?case by simp
next
  case (Cons p b)
  obtain k v where p: "p = (k, v)" by (cases p)
  from Cons.prems p have notin: "map_of b k = None" and d: "distinct (map fst b)"
    by (auto simp: map_of_eq_None_iff)
  have "map_of (fold (\<lambda>(k, v) acc. AList.update k v acc) (p # b) acc)
      = map_of (AList.update k v acc) ++ map_of b"
    using Cons.IH [OF d] p by simp
  also have "\<dots> = (map_of acc)(k \<mapsto> v) ++ map_of b"
    by (simp add: update_conv')
  also have "\<dots> = map_of acc ++ map_of (p # b)"
    using notin p by (auto simp: fun_eq_iff map_add_def split: option.splits)
  finally show ?case .
qed

lemma keys_fold_update:
  "fst ` set (fold (\<lambda>(k, v) acc. AList.update k v acc) b acc) = fst ` set acc \<union> fst ` set b"
  by (induction b arbitrary: acc) (auto simp: dom_update split: prod.splits)

lemma map_of_spread:
  "distinct (map fst a) \<Longrightarrow> distinct (map fst b) \<Longrightarrow> map_of (spread a b) = map_of a ++ map_of b"
  by (simp add: spread_def map_of_fold_update)

lemma keys_spread: "fst ` set (spread a b) = fst ` set a \<union> fst ` set b"
  by (simp add: spread_def keys_fold_update)

text \<open>
  Claim C2, as the code has it. A \<^verbatim>\<open>calculate\<close> action, and a \<^verbatim>\<open>set\<close> action with an
  expression and no value, evaluate the expression against \<^verbatim>\<open>{ ...data, ...context }\<close>
  and write the result at the field: the keys of that object are those of the record and
  those of the context, and on a key of both the value is the one of the context.
\<close>

theorem expression_scope_context_first:
  assumes "a_type a = ACalculate \<or> (a_type a = ASet \<and> a_value a = Undefined)"
    and "a_field a = Some f" and "f \<noteq> []" and "a_expression a = Some e" and "e \<noteq> []"
    and "distinct (map fst (own_props h dat))" and "distinct (map fst (own_props h ctx))"
  shows "action_step H h dat ctx a =
      (case evaluate H e (expression_scope h dat ctx) h of
         Inl err \<Rightarrow> (h, Inl err)
       | Inr v \<Rightarrow> (case setFieldValue h f v dat of
             (h1, Some err) \<Rightarrow> (h1, Inl err)
           | (h1, None) \<Rightarrow> (h1, Inr 1)))
    \<and> fst ` set (expression_scope h dat ctx) = fst ` set (own_props h dat) \<union> fst ` set (own_props h ctx)
    \<and> map_of (expression_scope h dat ctx) = map_of (own_props h dat) ++ map_of (own_props h ctx)"
  using assms
  by (auto simp: action_step_def calculate_into_def str_or_empty_def expression_scope_def
      map_of_spread keys_spread)

theorem expression_scope_context_first_witness:
  "distinct (map fst (own_props ex_heap (Ref 1))) \<and> distinct (map fst (own_props ex_heap (Ref 0)))
   \<and> map_of (own_props ex_heap (Ref 1)) ''country'' = Some (Str ''XX'')
   \<and> map_of (own_props ex_heap (Ref 0)) ''country'' = Some (Str ''DE'')
   \<and> map_of (expression_scope ex_heap (Ref 1) (Ref 0)) ''country'' = Some (Str ''DE'')"
proof -
  have d: "distinct (map fst (own_props ex_heap (Ref 1)))" "distinct (map fst (own_props ex_heap (Ref 0)))"
    by (simp_all add: own_props_def deref_def ex_heap_def)
  have v: "map_of (own_props ex_heap (Ref 1)) ''country'' = Some (Str ''XX'')"
    "map_of (own_props ex_heap (Ref 0)) ''country'' = Some (Str ''DE'')"
    by (simp_all add: own_props_def deref_def ex_heap_def)
  have a: "a_type (mk_action ACalculate ''out'' Undefined (Some ''country'')) = ACalculate
       \<or> (a_type (mk_action ACalculate ''out'' Undefined (Some ''country'')) = ASet
          \<and> a_value (mk_action ACalculate ''out'' Undefined (Some ''country'')) = Undefined)"
    "a_field (mk_action ACalculate ''out'' Undefined (Some ''country'')) = Some ''out''"
    "''out'' \<noteq> []"
    "a_expression (mk_action ACalculate ''out'' Undefined (Some ''country'')) = Some ''country''"
    "''country'' \<noteq> []"
    by (simp_all add: mk_action_def)
  from expression_scope_context_first [OF a d, of example_host] d v show ?thesis
    by (simp add: map_add_def)
qed

text \<open>
  The record and the context both have \<^verbatim>\<open>country\<close>; the expression \<^verbatim>\<open>country\<close>
  evaluates to the value of the context, not to that of the record.
\<close>

theorem record_precedence_counterexample:
  "get_prop ex_heap (Ref 1) ''country'' = Str ''XX''
   \<and> get_prop ex_heap (Ref 0) ''country'' = Str ''DE''
   \<and> (case action_step example_host ex_heap (Ref 1) (Ref 0)
          (mk_action ACalculate ''out'' Undefined (Some ''country'')) of
        (h', r) \<Rightarrow> r = Inr 1 \<and> get_prop h' (Ref 1) ''out'' = Str ''DE'')"
  by (simp add: action_step_def calculate_into_def str_or_empty_def expression_scope_def mk_action_def
      evaluate_def isSimpleMathExpression_def is_digit_def is_space_def example_host_def is_identifier_def
      spread_def own_props_def own_lookup_def proto_of_def deref_def ex_heap_def get_prop_def
      has_length_def setFieldValue_def set_prop_def Let_def)

subsection \<open>Set, then remove\<close>

lemma split_dot_no_dot: "CHR ''.'' \<notin> set f \<Longrightarrow> split_dot f = [f]"
  by (induction f) auto

lemma setFieldValue_top_level:
  "CHR ''.'' \<notin> set f \<Longrightarrow>
     setFieldValue h f v dat = (case set_prop h dat f v of Inl e \<Rightarrow> (h, Some e) | Inr h2 \<Rightarrow> (h2, None))"
  by (simp add: setFieldValue_def split_dot_no_dot)

text \<open>
  Claim C8, as the code has it. On a record object, \<^verbatim>\<open>set\<close> of a value at a field
  path without a dot, other than \<^verbatim>\<open>__proto__\<close>, followed by \<^verbatim>\<open>remove\<close> of the same
  path runs both actions and leaves the record without that key, the other keys and the
  prototype as they were: the record is as before the \<^verbatim>\<open>set\<close> when it did not have
  the key.
\<close>

theorem set_then_remove:
  assumes "f \<noteq> []" and "CHR ''.'' \<notin> set f" and "v \<noteq> Undefined"
    and "deref h d = Some (HObj pr ps)" and "f \<noteq> ''__proto__''"
  shows "executeActions H h
       [\<lparr>a_type = ASet, a_field = Some f, a_value = v, a_expression = e1\<rparr>,
        \<lparr>a_type = ARemove, a_field = Some f, a_value = v2, a_expression = e2\<rparr>] (Ref d) ctx
     = (h[d := HObj pr (AList.delete f ps)], Inr 2)
   \<and> (map_of ps f = None \<longrightarrow> h[d := HObj pr (AList.delete f ps)] = h)"
proof
  from assms(4) have d: "d < length h" and hd: "h ! d = HObj pr ps"
    by (auto simp: deref_def split: if_splits)
  have set: "setFieldValue h f v (Ref d) = (h[d := HObj pr (AList.update f v ps)], None)"
    using assms(2,4,5) by (simp add: setFieldValue_top_level set_prop_def)
  have del: "delete_prop (h[d := HObj pr (AList.update f v ps)]) (Ref d) f
      = Inr (h[d := HObj pr (AList.delete f ps)])"
    using d by (simp add: delete_prop_def deref_def delete_update_same)
  show "executeActions H h
       [\<lparr>a_type = ASet, a_field = Some f, a_value = v, a_expression = e1\<rparr>,
        \<lparr>a_type = ARemove, a_field = Some f, a_value = v2, a_expression = e2\<rparr>] (Ref d) ctx
     = (h[d := HObj pr (AList.delete f ps)], Inr 2)"
    using assms(1,3) by (simp add: executeActions_def action_step_def str_or_empty_def set del)
  show "map_of ps f = None \<longrightarrow> h[d := HObj pr (AList.delete f ps)] = h"
  proof
    assume "map_of ps f = None"
    then have "f \<notin> fst ` set ps" by (simp add: map_of_eq_None_iff)
    then have "AList.delete f ps = ps" by (rule AList.delete_id)
    then show "h[d := HObj pr (AList.delete f ps)] = h"
      using hd d by (simp add: list_update_same_conv)
  qed
qed

theorem set_then_remove_witness:
  "''fee'' \<noteq> [] \<and> CHR ''.'' \<notin> set ''fee'' \<and> Num 15 \<noteq> Undefined
   \<and> deref ex_heap 1 = Some (HObj Builtin [(''flags'', Ref 2), (''customer'', Ref 3), (''country'', Str ''XX'')])
   \<and> ''fee'' \<noteq> ''__proto__''
   \<and> map_of [(''flags'', Ref 2), (''customer'', Ref 3), (''country'', Str ''XX'')] ''fee'' = None
   \<and> executeActions example_host ex_heap
        [mk_action ASet ''fee'' (Num 15) None, mk_action ARemove ''fee'' Undefined None] (Ref 1) (Ref 0)
      = (ex_heap, Inr 2)"
proof -
  have a: "''fee'' \<noteq> []" "CHR ''.'' \<notin> set ''fee''" "Num 15 \<noteq> Undefined"
    by simp_all
  have b: "deref ex_heap 1 = Some (HObj Builtin [(''flags'', Ref 2), (''customer'', Ref 3), (''country'', Str ''XX'')])"
    by (simp add: deref_def ex_heap_def)
  have p: "''fee'' \<noteq> ''__proto__''"
    by simp
  have c: "map_of [(''flags'', Ref 2), (''customer'', Ref 3), (''country'', Str ''XX'')] ''fee'' = None"
    by simp
  from set_then_remove [OF a b p, of example_host None Undefined None "Ref 0"] c
  have "executeActions example_host ex_heap
        [mk_action ASet ''fee'' (Num 15) None, mk_action ARemove ''fee'' Undefined None] (Ref 1) (Ref 0)
      = (ex_heap, Inr 2)"
    by (simp add: mk_action_def)
  with a b c show ?thesis by simp
qed

text \<open>
  A key the record had before is gone after \<^verbatim>\<open>set\<close> and \<^verbatim>\<open>remove\<close>, not back at its
  value; after \<^verbatim>\<open>set\<close> and \<^verbatim>\<open>remove\<close> of \<^verbatim>\<open>customer.vip\<close> the nested field is
  still set, since \<^verbatim>\<open>remove\<close> deletes the key of that whole name; and after
  \<^verbatim>\<open>set\<close> of \<^verbatim>\<open>__proto__\<close> to an object and \<^verbatim>\<open>remove\<close> of it, the record still
  has that object as its prototype and reads its \<^verbatim>\<open>name\<close>.
\<close>

theorem set_then_remove_counterexample:
  "(case executeActions example_host ex_heap
          [mk_action ASet ''country'' (Str ''FR'') None, mk_action ARemove ''country'' Undefined None]
          (Ref 1) (Ref 0) of
      (h', r) \<Rightarrow> r = Inr 2
        \<and> getNestedValue ex_heap (Ref 1) ''country'' = Str ''XX''
        \<and> getNestedValue h' (Ref 1) ''country'' = Undefined)
   \<and> (case executeActions example_host ex_heap
          [mk_action ASet ''customer.vip'' (Bool True) None, mk_action ARemove ''customer.vip'' Undefined None]
          (Ref 1) (Ref 0) of
      (h', r) \<Rightarrow> r = Inr 2
        \<and> getNestedValue ex_heap (Ref 1) ''customer.vip'' = Undefined
        \<and> getNestedValue h' (Ref 1) ''customer.vip'' = Bool True)
   \<and> (case executeActions example_host ex_heap
          [mk_action ASet ''__proto__'' (Ref 3) None, mk_action ARemove ''__proto__'' Undefined None]
          (Ref 1) (Ref 0) of
      (h', r) \<Rightarrow> r = Inr 2
        \<and> getNestedValue ex_heap (Ref 1) ''name'' = Undefined
        \<and> getNestedValue h' (Ref 1) ''name'' = Str ''n'')"
  by (simp add: executeActions_def action_step_def str_or_empty_def mk_action_def
      setFieldValue_def set_prop_def set_proto_def delete_prop_def get_prop_strict_def get_prop_def
      own_lookup_def own_props_def proto_of_def has_length_def deref_def getNestedValue_def
      truthy_def ex_heap_def Let_def)

section \<open>The pass over the rules\<close>






section \<open>Execute\<close>

lemma rule_loop_invariant:
  assumes "P st"
    and failed: "\<And>st r e h. P st \<Longrightarrow> P (rule_failed r e h st)"
    and matched: "\<And>st r b n h m. P st \<Longrightarrow>
        P (st\<lparr>p_heap := h, p_matched := m, p_trace := p_trace st @ [rule_traced r b n]\<rparr>)"
    and unmatched: "\<And>st r b n. P st \<Longrightarrow> P (st\<lparr>p_trace := p_trace st @ [rule_traced r b n]\<rparr>)"
  shows "P (rule_loop H strat dat ctx rs st)"
  using assms(1)
proof (induction rs arbitrary: st)
  case Nil
  then show ?case by simp
next
  case (Cons r rs)
  show ?case
    by (simp add: Let_def Cons.IH failed matched unmatched Cons.prems split: sum.splits prod.splits)
qed

lemma rule_loop_errors_iff:
  assumes "(\<exists>t\<in>set (p_trace st). t_error t \<noteq> None) \<longleftrightarrow> p_errors st \<noteq> []"
  shows "(\<exists>t\<in>set (p_trace (rule_loop H strat dat ctx rs st)). t_error t \<noteq> None)
        \<longleftrightarrow> p_errors (rule_loop H strat dat ctx rs st) \<noteq> []"
  by (rule rule_loop_invariant
        [where P = "\<lambda>s. (\<exists>t\<in>set (p_trace s). t_error t \<noteq> None) \<longleftrightarrow> p_errors s \<noteq> []"])
     (use assms in \<open>auto simp: rule_failed_def rule_traced_def\<close>)

lemma context_data_read:
  "v \<noteq> Undefined \<Longrightarrow> v \<noteq> Null \<Longrightarrow> get_prop_strict h v ''data'' = Inr (get_prop h v ''data'')"
  by (simp add: get_prop_strict_def)

text \<open>
  Claim C1, as the code has it. For a request whose context is present (anything but
  \<^verbatim>\<open>undefined\<close> and \<^verbatim>\<open>null\<close>) and whose rule set id the runtime converts to a
  string, \<^verbatim>\<open>execute\<close> throws nothing and returns a result; \<^verbatim>\<open>success\<close> is false
  exactly when the result carries errors, of which there is then at least one; and it is
  false when the rule set is not found and when a rule of the trace failed.
\<close>

theorem execute_returns_result:
  assumes "rq_context request \<noteq> Undefined" and "rq_context request \<noteq> Null"
    and "js_String H
           (h @ [HObj Builtin (spread (own_props h (get_prop h (rq_context request) ''data''))
                                      (own_props h (rq_data request)))])
           (rq_ruleSetId request) = Inr shown"
  shows "\<exists>res h'. execute H provider request h = Inr (res, h')
     \<and> (success res \<longleftrightarrow> errors res = None)
     \<and> errors res \<noteq> Some []
     \<and> (provider (rq_ruleSetId request) = None \<longrightarrow> \<not> success res)
     \<and> ((\<exists>t\<in>set (executionTrace res). t_error t \<noteq> None) \<longrightarrow> \<not> success res)"
proof (cases "provider (rq_ruleSetId request)")
  case None
  then show ?thesis
    using assms by (simp add: execute_def context_data_read fatal_result_def Let_def)
next
  case (Some ruleSet)
  define st0 where "st0 =
    \<lparr>p_heap = h @ [HObj Builtin (spread (own_props h (get_prop h (rq_context request) ''data''))
                                 (own_props h (rq_data request)))],
     p_trace = [], p_errors = [], p_matched = 0\<rparr>"
  define sorted where "sorted =
    sortRulesByPriority (filterRulesByScope (p_heap st0) (rules ruleSet) (rq_context request))"
  define st where "st =
    rule_loop H (strategy ruleSet) (Ref (length h)) (rq_context request) sorted st0"
  have inv: "(\<exists>t\<in>set (p_trace st). t_error t \<noteq> None) \<longleftrightarrow> p_errors st \<noteq> []"
    unfolding st_def by (rule rule_loop_errors_iff) (simp add: st0_def)
  have ex: "execute H provider request h =
      Inr (\<lparr>success = (p_errors st = []), data = Ref (length h), executionTrace = p_trace st,
            errors = (if p_errors st \<noteq> [] then Some (p_errors st) else None),
            rulesEvaluated = length sorted, rulesMatched = p_matched st,
            correlationId = get_prop (p_heap st) (rq_context request) ''correlationId''\<rparr>,
           p_heap st)"
    using assms Some
    by (simp add: execute_def context_data_read Let_def st_def st0_def sorted_def)
  show ?thesis
    unfolding ex using inv Some by auto
qed

text \<open>
  A request without a rule set id whose rule set is not found, and a rule set whose only
  rule has an operator the engine does not know: both calls return, with
  \<^verbatim>\<open>success\<close> false.
\<close>

theorem execute_returns_result_witness:
  "rq_context (ex_request\<lparr>rq_ruleSetId := Undefined\<rparr>) \<noteq> Undefined
   \<and> rq_context (ex_request\<lparr>rq_ruleSetId := Undefined\<rparr>) \<noteq> Null
   \<and> (\<exists>res h'. execute example_host (\<lambda>_. None) (ex_request\<lparr>rq_ruleSetId := Undefined\<rparr>) ex_heap
          = Inr (res, h') \<and> \<not> success res)
   \<and> (\<exists>res h'. execute example_host
          (\<lambda>_. Some (ex_ruleset [(mk_rule ''r'' 1 None [])\<lparr>when' := Simple ''amount'' ''almost'' (Num 1)\<rparr>]))
          ex_request ex_heap
          = Inr (res, h') \<and> map t_error (executionTrace res) = [Some (Error ''Unknown operator: almost'')]
            \<and> \<not> success res)"
proof -
  let ?rs = "ex_ruleset [(mk_rule ''r'' 1 None [])\<lparr>when' := Simple ''amount'' ''almost'' (Num 1)\<rparr>]"
  have ctx: "rq_context (ex_request\<lparr>rq_ruleSetId := Undefined\<rparr>) \<noteq> Undefined"
    "rq_context (ex_request\<lparr>rq_ruleSetId := Undefined\<rparr>) \<noteq> Null"
    "rq_context ex_request \<noteq> Undefined" "rq_context ex_request \<noteq> Null"
    by (simp_all add: ex_request_def)
  have id1: "js_String example_host h' (rq_ruleSetId (ex_request\<lparr>rq_ruleSetId := Undefined\<rparr>))
      = Inr ''undefined''" for h'
    by (simp add: example_host_def)
  have id2: "js_String example_host h' (rq_ruleSetId ex_request) = Inr ''rs1''" for h'
    by (simp add: example_host_def ex_request_def)
  have tr: "(case execute example_host (\<lambda>_. Some ?rs) ex_request ex_heap of
        Inl e \<Rightarrow> False
      | Inr (res, h') \<Rightarrow> map t_error (executionTrace res) = [Some (Error ''Unknown operator: almost'')])"
    by (simp add: execute_def ex_request_def ex_heap_def ex_ruleset_def mk_rule_def example_host_def
          get_prop_strict_def filterRulesByScope_def rule_in_scope_def sortRulesByPriority_def
          js_sort_def evaluateSimpleCondition_def rule_failed_def Let_def)
  have a: "\<exists>res h'. execute example_host (\<lambda>_. None) (ex_request\<lparr>rq_ruleSetId := Undefined\<rparr>) ex_heap
          = Inr (res, h') \<and> \<not> success res"
    using execute_returns_result [OF ctx(1) ctx(2) id1, of "\<lambda>_. None" ex_heap] by auto
  have b: "\<exists>res h'. execute example_host (\<lambda>_. Some ?rs) ex_request ex_heap
          = Inr (res, h') \<and> map t_error (executionTrace res) = [Some (Error ''Unknown operator: almost'')]
            \<and> \<not> success res"
    using execute_returns_result [OF ctx(3) ctx(4) id2, of "\<lambda>_. Some ?rs" ex_heap] tr
    by (auto split: sum.splits)
  from ctx a b show ?thesis by blast
qed

text \<open>
  Two requests for which \<^verbatim>\<open>execute\<close> throws instead of returning a result. One has
  no context: \<^verbatim>\<open>context.data\<close> is read before the \<^verbatim>\<open>try\<close>. The other has as rule
  set id the object \<^verbatim>\<open>{ toString: 1 }\<close>, which the template literal of the first log
  line, before the \<^verbatim>\<open>try\<close> as well, cannot convert to a string.
\<close>

theorem missing_context_counterexample:
  "execute example_host (\<lambda>_. None) (ex_request\<lparr>rq_context := Undefined\<rparr>) ex_heap = Inl TypeError
   \<and> execute example_host (\<lambda>_. Some (ex_ruleset [])) (ex_request\<lparr>rq_ruleSetId := Ref 4\<rparr>)
        (ex_heap @ [HObj Builtin [(''toString'', Num 1)]]) = Inl TypeError"
  by (simp add: execute_def get_prop_strict_def get_prop_def own_lookup_def own_props_def proto_of_def
      has_length_def deref_def ex_request_def ex_heap_def example_host_def Let_def)

text \<open>
  Claim C4, as the code has it. When the provider has no rule set for the id of the
  request, the request has its context and the runtime converts the id to a string, the
  result has \<^verbatim>\<open>success\<close> false, one error, of the system, that says the rule set was
  not found, no rule evaluated or matched, an empty trace, and as record the new object
  made of the data of the context and of the request, with the store otherwise as it was.
\<close>

theorem ruleset_not_found:
  assumes "provider (rq_ruleSetId request) = None"
    and "rq_context request \<noteq> Undefined" and "rq_context request \<noteq> Null"
    and "js_String H
           (h @ [HObj Builtin (spread (own_props h (get_prop h (rq_context request) ''data''))
                                      (own_props h (rq_data request)))])
           (rq_ruleSetId request) = Inr shown"
  shows "\<exists>res h'. execute H provider request h = Inr (res, h')
     \<and> \<not> success res
     \<and> errors res = Some [\<lparr>e_ruleId = ''SYSTEM'',
          e_error = Error (''RuleSet not found: '' @ shown)\<rparr>]
     \<and> rulesEvaluated res = 0 \<and> rulesMatched res = 0
     \<and> executionTrace res = []
     \<and> data res = Ref (length h)
     \<and> h' = h @ [HObj Builtin (spread (own_props h (get_prop h (rq_context request) ''data''))
                                        (own_props h (rq_data request)))]"
  using assms by (simp add: execute_def context_data_read fatal_result_def Let_def)

theorem ruleset_not_found_witness:
  "(\<lambda>_. None :: rule_set option) (rq_ruleSetId ex_request) = None
   \<and> rq_context ex_request \<noteq> Undefined \<and> rq_context ex_request \<noteq> Null
   \<and> (\<exists>res h'. execute example_host (\<lambda>_. None) ex_request ex_heap = Inr (res, h')
        \<and> errors res = Some [\<lparr>e_ruleId = ''SYSTEM'', e_error = Error ''RuleSet not found: rs1''\<rparr>]
        \<and> rulesEvaluated res = 0 \<and> executionTrace res = []
        \<and> h' = ex_heap @ [HObj Builtin [(''flags'', Ref 2), (''customer'', Ref 3), (''country'', Str ''XX'')]])"
proof -
  have ctx: "rq_context ex_request \<noteq> Undefined" "rq_context ex_request \<noteq> Null"
    by (simp_all add: ex_request_def)
  have rec: "spread (own_props ex_heap (get_prop ex_heap (rq_context ex_request) ''data''))
                    (own_props ex_heap (rq_data ex_request))
      = [(''flags'', Ref 2), (''customer'', Ref 3), (''country'', Str ''XX'')]"
    by (simp add: ex_heap_def ex_request_def get_prop_def own_lookup_def own_props_def proto_of_def
        deref_def has_length_def spread_def)
  have msg: "js_String example_host h' (rq_ruleSetId ex_request) = Inr ''rs1''" for h'
    by (simp add: example_host_def ex_request_def)
  show ?thesis
    using ruleset_not_found [of "\<lambda>_. None" ex_request, OF refl ctx msg, of ex_heap]
    by (auto simp: ctx rec)
qed

text \<open>
  Two requests whose rule set the provider does not resolve and for which
  \<^verbatim>\<open>execute\<close> throws instead of returning the result of the claim: one whose context
  is \<^verbatim>\<open>null\<close>, and one whose rule set id is the object \<^verbatim>\<open>{ toString: 1 }\<close>, which
  the template literal of the first log line cannot convert to a string.
\<close>

theorem ruleset_not_found_counterexample:
  "execute example_host (\<lambda>_. None) (ex_request\<lparr>rq_context := Null\<rparr>) ex_heap = Inl TypeError
   \<and> execute example_host (\<lambda>_. None) (ex_request\<lparr>rq_ruleSetId := Ref 4\<rparr>)
        (ex_heap @ [HObj Builtin [(''toString'', Num 1)]]) = Inl TypeError"
  by (simp add: execute_def get_prop_strict_def get_prop_def own_lookup_def own_props_def proto_of_def
      has_length_def deref_def ex_request_def ex_heap_def example_host_def Let_def)

subsection \<open>What an execution writes to\<close>

lemma set_prop_record:
  "\<exists>pr' ps' r. (case set_prop (h @ [HObj pr ps]) (Ref (length h)) k x of
        Inl e \<Rightarrow> (h @ [HObj pr ps], Some e) | Inr h2 \<Rightarrow> (h2, None)) = (h @ [HObj pr' ps'], r)"
  by (simp add: set_prop_def set_proto_def deref_def split: jsval.splits)

lemma delete_prop_record:
  "delete_prop (h @ [HObj pr ps]) (Ref (length h)) k = Inr (h @ [HObj pr (AList.delete k ps)])"
  by (simp add: delete_prop_def deref_def)

lemma setFieldValue_record:
  "CHR ''.'' \<notin> set f \<Longrightarrow>
     \<exists>pr' ps' r. setFieldValue (h @ [HObj pr ps]) f v (Ref (length h)) = (h @ [HObj pr' ps'], r)"
  using set_prop_record [of h pr ps f v] by (simp add: setFieldValue_top_level)

lemma set_into_record:
  assumes "CHR ''.'' \<notin> set f"
  shows "\<exists>pr' ps' r. (case setFieldValue (h @ [HObj pr ps]) f v (Ref (length h)) of
        (h1, Some e) \<Rightarrow> (h1, Inl e) | (h1, None) \<Rightarrow> (h1, Inr (1::nat))) = (h @ [HObj pr' ps'], r)"
proof -
  from setFieldValue_record [OF assms, of h pr ps v] obtain pr' ps' r where
    "setFieldValue (h @ [HObj pr ps]) f v (Ref (length h)) = (h @ [HObj pr' ps'], r)"
    by blast
  then show ?thesis by (cases r) simp_all
qed

lemma calculate_into_record:
  assumes "CHR ''.'' \<notin> set f"
  shows "\<exists>pr' ps' r. calculate_into H (h @ [HObj pr ps]) (Ref (length h)) ctx f e
      = (h @ [HObj pr' ps'], r)"
proof (cases "evaluate H e (expression_scope (h @ [HObj pr ps]) (Ref (length h)) ctx) (h @ [HObj pr ps])")
  case (Inl err)
  then show ?thesis by (simp add: calculate_into_def)
next
  case (Inr v)
  with set_into_record [OF assms, of h pr ps v] show ?thesis
    by (simp add: calculate_into_def del: One_nat_def)
qed

lemma action_step_top_level:
  assumes "top_level_action a"
  shows "\<exists>pr' ps' r. action_step H (h @ [HObj pr ps]) (Ref (length h)) ctx a = (h @ [HObj pr' ps'], r)"
proof (cases "a_type a")
  case ASet
  with assms have dot: "CHR ''.'' \<notin> set (str_or_empty (a_field a))"
    by (simp add: top_level_action_def)
  show ?thesis
    using ASet set_into_record [OF dot, of h pr ps "a_value a"]
      calculate_into_record [OF dot, of H h pr ps ctx "str_or_empty (a_expression a)"]
    by (simp add: action_step_def Let_def del: One_nat_def)
next
  case AAppend
  with assms show ?thesis by (simp add: top_level_action_def)
next
  case ARemove
  then show ?thesis by (simp add: action_step_def delete_prop_record Let_def)
next
  case ACalculate
  with assms have dot: "CHR ''.'' \<notin> set (str_or_empty (a_field a))"
    by (simp add: top_level_action_def)
  show ?thesis
    using ACalculate calculate_into_record [OF dot, of H h pr ps ctx "str_or_empty (a_expression a)"]
    by (simp add: action_step_def Let_def del: One_nat_def)
next
  case ACall
  then show ?thesis by (simp add: action_step_def)
qed

lemma actions_loop_top_level:
  "\<forall>a\<in>set actions. top_level_action a \<Longrightarrow>
     \<exists>pr' ps' r. actions_loop H (h @ [HObj pr ps]) (Ref (length h)) ctx actions n = (h @ [HObj pr' ps'], r)"
proof (induction actions arbitrary: pr ps n)
  case Nil
  then show ?case by simp
next
  case (Cons a actions)
  then have "top_level_action a" by simp
  from action_step_top_level [OF this, of H h pr ps ctx] obtain pr1 ps1 r1 where
    step: "action_step H (h @ [HObj pr ps]) (Ref (length h)) ctx a = (h @ [HObj pr1 ps1], r1)"
    by blast
  show ?case
  proof (cases r1)
    case (Inl e)
    with step show ?thesis by simp
  next
    case (Inr k)
    from Cons.prems have "\<forall>a\<in>set actions. top_level_action a" by simp
    from Cons.IH [OF this, of pr1 ps1 "n + k"] step Inr show ?thesis by simp
  qed
qed

lemma rule_loop_top_level:
  "\<forall>r\<in>set rs. \<forall>a\<in>set (then' r). top_level_action a \<Longrightarrow> p_heap st = h @ [HObj pr ps] \<Longrightarrow>
     \<exists>pr' ps'. p_heap (rule_loop H strat (Ref (length h)) ctx rs st) = h @ [HObj pr' ps']"
proof (induction rs arbitrary: st pr ps)
  case Nil
  then show ?case by simp
next
  case (Cons r rs)
  from Cons.prems have acts: "\<forall>a\<in>set (then' r). top_level_action a"
    and rest: "\<forall>r\<in>set rs. \<forall>a\<in>set (then' r). top_level_action a"
    by simp_all
  from actions_loop_top_level [OF acts, of H h pr ps ctx 0] obtain pr1 ps1 r1 where
    run: "executeActions H (h @ [HObj pr ps]) (then' r) (Ref (length h)) ctx = (h @ [HObj pr1 ps1], r1)"
    by (auto simp: executeActions_def)
  have next_ok: "\<exists>pr' ps'. p_heap (rule_loop H strat (Ref (length h)) ctx rs st1) = h @ [HObj pr' ps']"
    if "p_heap st1 = h @ [HObj pq q]" for st1 pq q
    using Cons.IH [OF rest that] .
  show ?case
  proof (cases "evaluateCondition H (p_heap st) (Ref (length h)) ctx (when' r)")
    case (Inl e)
    have "\<exists>pr' ps'. p_heap (rule_loop H strat (Ref (length h)) ctx rs (rule_failed r e (p_heap st) st))
        = h @ [HObj pr' ps']"
      by (rule next_ok [of _ pr ps]) (simp add: rule_failed_def Cons.prems(2))
    with Inl show ?thesis by simp
  next
    case (Inr b)
    show ?thesis
    proof (cases b)
      case False
      have "\<exists>pr' ps'. p_heap (rule_loop H strat (Ref (length h)) ctx rs
          (st\<lparr>p_trace := p_trace st @ [rule_traced r False None]\<rparr>)) = h @ [HObj pr' ps']"
        by (rule next_ok [of _ pr ps]) (simp add: Cons.prems(2))
      with Inr False show ?thesis by simp
    next
      case True
      show ?thesis
      proof (cases r1)
        case (Inl e)
        have "\<exists>pr' ps'. p_heap (rule_loop H strat (Ref (length h)) ctx rs (rule_failed r e (h @ [HObj pr1 ps1]) st))
            = h @ [HObj pr' ps']"
          by (rule next_ok [of _ pr1 ps1]) (simp add: rule_failed_def)
        with Inr True Inl run Cons.prems(2) show ?thesis by simp
      next
        case (Inr n)
        have "\<exists>pr' ps'. p_heap (rule_loop H strat (Ref (length h)) ctx rs
            (st\<lparr>p_heap := h @ [HObj pr1 ps1], p_matched := p_matched st + 1,
                p_trace := p_trace st @ [rule_traced r True (Some n)]\<rparr>)) = h @ [HObj pr' ps']"
          by (rule next_ok [of _ pr1 ps1]) simp
        with \<open>evaluateCondition H (p_heap st) (Ref (length h)) ctx (when' r) = Inr b\<close>
          True Inr run Cons.prems(2)
        show ?thesis by (simp add: Let_def)
      qed
    qed
  qed
qed

text \<open>
  Claim C3, as the code has it. The record of an execution is a new object, and
  \<^verbatim>\<open>set\<close> and \<^verbatim>\<open>calculate\<close> on a field path without a dot, \<^verbatim>\<open>remove\<close> and
  \<^verbatim>\<open>call\<close> write to that object only: when the rule set has no other action, the
  store after \<^verbatim>\<open>execute\<close> is the store before it followed by the record, so the
  context and all that can be reached from it are as they were.
\<close>

theorem top_level_writes_keep_store:
  assumes "provider (rq_ruleSetId request) = Some ruleSet"
    and "\<forall>r\<in>set (rules ruleSet). \<forall>a\<in>set (then' r). top_level_action a"
    and "execute H provider request h = Inr (res, h')"
  shows "data res = Ref (length h) \<and> (\<exists>pr ps. h' = h @ [HObj pr ps])"
proof -
  define h0 where "h0 = h @ [HObj Builtin (spread (own_props h (get_prop h (rq_context request) ''data''))
                                       (own_props h (rq_data request)))]"
  define sorted where "sorted =
    sortRulesByPriority (filterRulesByScope h0 (rules ruleSet) (rq_context request))"
  have "set sorted \<subseteq> set (rules ruleSet)"
    by (auto simp: sorted_def set_sortRulesByPriority filterRulesByScope_def)
  with assms(2) have top: "\<forall>r\<in>set sorted. \<forall>a\<in>set (then' r). top_level_action a"
    by blast
  define st where "st = rule_loop H (strategy ruleSet) (Ref (length h)) (rq_context request) sorted
        \<lparr>p_heap = h0, p_trace = [], p_errors = [], p_matched = 0\<rparr>"
  have "\<exists>pr' ps'. p_heap st = h @ [HObj pr' ps']"
    unfolding st_def by (rule rule_loop_top_level [OF top]) (simp add: h0_def)
  then obtain pr' ps' where heap: "p_heap st = h @ [HObj pr' ps']" by blast
  have ctx: "rq_context request \<noteq> Undefined" "rq_context request \<noteq> Null"
    using assms(3) by (auto simp: execute_def get_prop_strict_def)
  obtain shown where shown: "js_String H
        (h @ [HObj Builtin (spread (own_props h (get_prop h (rq_context request) ''data''))
                                   (own_props h (rq_data request)))])
        (rq_ruleSetId request) = Inr shown"
    using assms(3) ctx
    by (cases "js_String H
        (h @ [HObj Builtin (spread (own_props h (get_prop h (rq_context request) ''data''))
                                   (own_props h (rq_data request)))])
        (rq_ruleSetId request)")
       (simp_all add: execute_def get_prop_strict_def Let_def)
  have "execute H provider request h =
      Inr (\<lparr>success = (p_errors st = []), data = Ref (length h), executionTrace = p_trace st,
            errors = (if p_errors st \<noteq> [] then Some (p_errors st) else None),
            rulesEvaluated = length sorted, rulesMatched = p_matched st,
            correlationId = get_prop (p_heap st) (rq_context request) ''correlationId''\<rparr>,
           p_heap st)"
    using ctx assms(1) shown
    by (simp add: execute_def get_prop_strict_def Let_def st_def h0_def sorted_def)
  with assms(3) have "h' = p_heap st" and "data res = Ref (length h)"
    by auto
  with heap show ?thesis by blast
qed

theorem top_level_writes_keep_store_witness:
  "list_all (\<lambda>r. list_all top_level_action (then' r))
      (rules (ex_ruleset [mk_rule ''r1'' 1 None
        [mk_action ASet ''fee'' (Num 15) None, mk_action ARemove ''flags'' Undefined None]]))
   \<and> (\<exists>res pr ps. execute example_host
        (\<lambda>_. Some (ex_ruleset [mk_rule ''r1'' 1 None
           [mk_action ASet ''fee'' (Num 15) None, mk_action ARemove ''flags'' Undefined None]]))
        ex_request ex_heap = Inr (res, ex_heap @ [HObj pr ps])
      \<and> data res = Ref 4)"
proof -
  let ?rs = "ex_ruleset [mk_rule ''r1'' 1 None
        [mk_action ASet ''fee'' (Num 15) None, mk_action ARemove ''flags'' Undefined None]]"
  have top: "\<forall>r\<in>set (rules ?rs). \<forall>a\<in>set (then' r). top_level_action a"
    by (simp add: ex_ruleset_def mk_rule_def mk_action_def top_level_action_def str_or_empty_def)
  have "\<exists>res h'. execute example_host (\<lambda>_. Some ?rs) ex_request ex_heap = Inr (res, h')"
    by (simp add: execute_def get_prop_strict_def ex_request_def example_host_def Let_def)
  then obtain res h' where ex: "execute example_host (\<lambda>_. Some ?rs) ex_request ex_heap = Inr (res, h')"
    by blast
  from top_level_writes_keep_store [of "\<lambda>_. Some ?rs" ex_request ?rs, OF refl top ex]
  obtain pr ps where "data res = Ref (length ex_heap)" and "h' = ex_heap @ [HObj pr ps]"
    by blast
  moreover have "length ex_heap = 4"
    by (simp add: ex_heap_def)
  ultimately have "execute example_host (\<lambda>_. Some ?rs) ex_request ex_heap = Inr (res, ex_heap @ [HObj pr ps])
      \<and> data res = Ref 4"
    using ex by simp
  moreover from top have "list_all (\<lambda>r. list_all top_level_action (then' r)) (rules ?rs)"
    by (simp add: list_all_iff)
  ultimately show ?thesis by blast
qed

text \<open>
  The record shares the array \<^verbatim>\<open>flags\<close> and the object \<^verbatim>\<open>customer\<close> with
  \<^verbatim>\<open>context.data\<close>: after an \<^verbatim>\<open>append\<close> to \<^verbatim>\<open>flags\<close>, and after a \<^verbatim>\<open>set\<close> of
  \<^verbatim>\<open>customer.name\<close>, the context read through \<^verbatim>\<open>context.data\<close> has changed.
\<close>

theorem context_mutated_counterexample:
  "(case execute example_host
        (\<lambda>_. Some (ex_ruleset [mk_rule ''r1'' 1 None [mk_action AAppend ''flags'' (Str ''B'') None]]))
        ex_request ex_heap of
      Inl e \<Rightarrow> False
    | Inr (res, h') \<Rightarrow>
        getNestedValue ex_heap (Ref 0) ''data.flags.length'' = Num 1
        \<and> getNestedValue h' (Ref 0) ''data.flags.length'' = Num 2)
   \<and> (case execute example_host
        (\<lambda>_. Some (ex_ruleset [mk_rule ''r1'' 1 None [mk_action ASet ''customer.name'' (Str ''changed'') None]]))
        ex_request ex_heap of
      Inl e \<Rightarrow> False
    | Inr (res, h') \<Rightarrow>
        getNestedValue ex_heap (Ref 0) ''data.customer.name'' = Str ''n''
        \<and> getNestedValue h' (Ref 0) ''data.customer.name'' = Str ''changed'')"
  by (simp add: execute_def ex_request_def ex_heap_def ex_ruleset_def mk_rule_def mk_action_def always_def
      get_prop_strict_def get_prop_def own_lookup_def proto_of_def own_props_def deref_def has_length_def spread_def
      example_host_def
      filterRulesByScope_def rule_in_scope_def sortRulesByPriority_def js_sort_def
      executeActions_def action_step_def str_or_empty_def getFieldValue_def getNestedValue_def
      setFieldValue_def set_prop_def truthy_def rule_traced_def Let_def)

end
